theory Spec2Isabelle
  imports Complex_Main "HOL-Library.Word"
begin

section \<open>Nova SDS011 service: command codec\<close>

text \<open>
  The embedding follows \<^verbatim>\<open>bin/user/novaSDS011.py\<close>.  Python integers are \<open>int\<close>, a
  \<^verbatim>\<open>bytes\<close> object is a list of 8-bit words, Python floats are read as the real numbers
  they stand for, and every \<^verbatim>\<open>raise\<close> is a value of the type \<open>error\<close>.
\<close>

type_synonym byte = "8 word"
type_synonym bytes = "byte list"

datatype error =
    AssertionError              \<comment> \<open>\<^verbatim>\<open>assert len(data) <= 12\<close>\<close>
  | ValueError                  \<comment> \<open>\<^verbatim>\<open>bytes([x])\<close> with \<open>x\<close> outside \<open>range(256)\<close>\<close>
  | NoResponse                  \<comment> \<open>\<^verbatim>\<open>TimeoutError("No response from sensor")\<close>\<close>
  | IncompleteResponse nat      \<comment> \<open>\<^verbatim>\<open>TimeoutError("Incomplete response: ... got n")\<close>\<close>

definition CMD_MODE :: int where "CMD_MODE = 2"
definition CMD_QUERY_DATA :: int where "CMD_QUERY_DATA = 4"
definition CMD_SLEEP :: int where "CMD_SLEEP = 6"
definition MODE_QUERY :: int where "MODE_QUERY = 1"

text \<open>\<^verbatim>\<open>bytes(xs)\<close> of a list of integers: each must lie in \<open>range(256)\<close>.\<close>

definition byte_values :: "int list \<Rightarrow> bool" where
  "byte_values xs = list_all (\<lambda>x. 0 \<le> x \<and> x < 256) xs"

definition to_bytes :: "int list \<Rightarrow> error + bytes" where
  "to_bytes xs = (if byte_values xs then Inr (map word_of_int xs) else Inl ValueError)"

text \<open>
  \<^verbatim>\<open>construct_command(cmd, data=None)\<close>.  The argument is \<open>None\<close> or a list object of the
  caller.  The statement \<^verbatim>\<open>data += [0] * (12 - len(data))\<close> extends that list object in
  place, so the function returns, next to its result, the contents the caller's
  argument has after the call (\<open>None\<close> stays \<open>None\<close>).
\<close>

definition construct_command :: "int \<Rightarrow> int list option \<Rightarrow> (error + bytes) \<times> int list option" where
  "construct_command cmd arg =
     (let data = (case arg of None \<Rightarrow> [] | Some xs \<Rightarrow> xs) in
      if \<not> length data \<le> 12 then (Inl AssertionError, arg)
      else
        let data' = data @ replicate (12 - length data) 0;
            arg' = map_option (\<lambda>_. data') arg;
            checksum = (sum_list data' + cmd - 2) mod 256
        in (case to_bytes [cmd] of
              Inl e \<Rightarrow> Inl e
            | Inr c \<Rightarrow>
               (case to_bytes data' of
                  Inl e \<Rightarrow> Inl e
                | Inr p \<Rightarrow>
                   (case to_bytes [checksum] of
                      Inl e \<Rightarrow> Inl e
                    | Inr k \<Rightarrow> Inr ([0xAA, 0xB4] @ c @ p @ [0xFF, 0xFF] @ k @ [0xAB]))),
            arg'))"

text \<open>The zero-padded payload of the frame, as the source computes it.\<close>

definition padded :: "int list \<Rightarrow> int list" where
  "padded data = data @ replicate (12 - length data) 0"


section \<open>Serial channel and response reader\<close>

text \<open>
  The serial port.  What the sensor sends is an arbitrary schedule \<open>rx\<close> of the input
  line: position \<open>i\<close> is \<open>Some b\<close> when the byte \<open>b\<close> arrives before the port's timeout
  has run out and \<open>None\<close> when the timeout runs out first.  \<open>pos\<close> is the position the
  next read starts at, \<open>tx\<close> the frames written so far.
\<close>

record serial =
  rx :: "nat \<Rightarrow> byte option"
  pos :: nat
  tx :: "bytes list"

text \<open>
  \<^verbatim>\<open>ser.read(size=n)\<close>: up to \<open>n\<close> bytes, fewer when the timeout runs out first.
\<close>

fun ser_read :: "nat \<Rightarrow> serial \<Rightarrow> bytes \<times> serial" where
  "ser_read 0 s = ([], s)"
| "ser_read (Suc n) s =
     (case rx s (pos s) of
        None \<Rightarrow> ([], s\<lparr>pos := pos s + 1\<rparr>)
      | Some b \<Rightarrow> (let (bs, s') = ser_read n (s\<lparr>pos := pos s + 1\<rparr>) in (b # bs, s')))"

definition ser_write :: "bytes \<Rightarrow> serial \<Rightarrow> serial" where
  "ser_write b s = s\<lparr>tx := tx s @ [b]\<rparr>"

text \<open>
  The loop of \<^verbatim>\<open>read_response\<close> that looks for the header byte:
  \<^verbatim>\<open>while byte != b'\xaa' and retries < max_retries\<close> with \<open>max_retries = 10\<close>.  The
  counter goes up only after a read that gave no byte.  The loop need not end, so it
  is a partial function: \<open>None\<close> is "does not return".
\<close>

partial_function (option)
  read_header :: "serial \<Rightarrow> bytes \<Rightarrow> nat \<Rightarrow> (serial \<times> bytes \<times> nat) option"
where
  "read_header s byte retries =
     (if byte \<noteq> [0xAA] \<and> retries < 10 then
        (let (byte', s') = ser_read 1 s in
         read_header s' byte' (if byte' = [] then retries + 1 else retries))
      else Some (s, byte, retries))"

declare read_header.simps [code]

definition read_response :: "serial \<Rightarrow> ((error + bytes) \<times> serial) option" where
  "read_response s =
     (case read_header s [] 0 of
        None \<Rightarrow> None
      | Some (s1, byte, retries) \<Rightarrow>
          if byte \<noteq> [0xAA] then Some (Inl NoResponse, s1)
          else
            let (d, s2) = ser_read 9 s1 in
            if length d \<noteq> 9 then Some (Inl (IncompleteResponse (length d)), s2)
            else Some (Inr (byte @ d), s2))"

text \<open>Concrete schedules: a finite list of events followed by silence, and a line
  that delivers the same byte for ever.  \<open>port f\<close> is a freshly opened port.\<close>

definition line :: "byte option list \<Rightarrow> nat \<Rightarrow> byte option" where
  "line evs n = (if n < length evs then evs ! n else None)"

definition chatter :: "byte \<Rightarrow> nat \<Rightarrow> byte option" where
  "chatter b n = Some b"

definition port :: "(nat \<Rightarrow> byte option) \<Rightarrow> serial" where
  "port f = \<lparr>rx = f, pos = 0, tx = []\<rparr>"

text \<open>The number of reads in the positions \<open>a..<b\<close> of the schedule that give no byte.\<close>

definition timeouts :: "(nat \<Rightarrow> byte option) \<Rightarrow> nat \<Rightarrow> nat \<Rightarrow> nat" where
  "timeouts f a b = length (filter (\<lambda>i. f i = None) [a..<b])"

text \<open>What holds of a result \<open>y\<close> of the header loop started from \<open>(s, byte, retries)\<close>.\<close>

definition scan_post :: "serial \<Rightarrow> bytes \<Rightarrow> nat \<Rightarrow> serial \<times> bytes \<times> nat \<Rightarrow> bool" where
  "scan_post s byte retries y =
     (case y of (s', byte', retries') \<Rightarrow>
        s' = s\<lparr>pos := pos s'\<rparr> \<and> pos s \<le> pos s' \<and>
        retries' = retries + timeouts (rx s) (pos s) (pos s') \<and>
        (byte' = [0xAA] \<or> 10 \<le> retries') \<and>
        (retries \<le> 10 \<longrightarrow> retries' \<le> 10) \<and>
        (byte = [0xAA] \<or> 10 \<le> retries \<longrightarrow> y = (s, byte, retries)) \<and>
        (byte' = [0xAA] \<and> byte \<noteq> [0xAA] \<longrightarrow>
           pos s < pos s' \<and> rx s (pos s' - 1) = Some 0xAA) \<and>
        (byte' \<noteq> [0xAA] \<longrightarrow> (\<forall>i. pos s \<le> i \<and> i < pos s' \<longrightarrow> rx s i \<noteq> Some 0xAA)))"

section \<open>Sensor commands\<close>

text \<open>
  \<^verbatim>\<open>cmd_set_mode\<close>, \<^verbatim>\<open>cmd_set_sleep\<close> and \<^verbatim>\<open>cmd_query_data\<close>: build the frame from a fresh
  list, write it, read one response.  An exception of \<^verbatim>\<open>read_response\<close> propagates.
\<close>

definition cmd_set_mode :: "int \<Rightarrow> serial \<Rightarrow> ((error + unit) \<times> serial) option" where
  "cmd_set_mode mode s =
     (case fst (construct_command CMD_MODE (Some [0x1, mode])) of
        Inl e \<Rightarrow> Some (Inl e, s)
      | Inr cmd \<Rightarrow>
         (case read_response (ser_write cmd s) of
            None \<Rightarrow> None
          | Some (Inl e, s') \<Rightarrow> Some (Inl e, s')
          | Some (Inr d, s') \<Rightarrow> Some (Inr (), s')))"

definition cmd_set_sleep :: "int \<Rightarrow> serial \<Rightarrow> ((error + unit) \<times> serial) option" where
  "cmd_set_sleep sleep s =
     (let mode = (if sleep \<noteq> 0 then 0 else 1) in
      case fst (construct_command CMD_SLEEP (Some [0x1, mode])) of
        Inl e \<Rightarrow> Some (Inl e, s)
      | Inr cmd \<Rightarrow>
         (case read_response (ser_write cmd s) of
            None \<Rightarrow> None
          | Some (Inl e, s') \<Rightarrow> Some (Inl e, s')
          | Some (Inr d, s') \<Rightarrow> Some (Inr (), s')))"

text \<open>
  The last five lines of \<^verbatim>\<open>cmd_query_data\<close>: the check of the frame \<open>d\<close> and the two
  values, or \<^verbatim>\<open>(None, None)\<close>.
\<close>

definition cmd_query_data_decode :: "bytes \<Rightarrow> real option \<times> real option" where
  "cmd_query_data_decode d =
     (if length d = 10 \<and> d ! 0 = 0xAA \<and> d ! 1 = 0xC0 \<and> d ! 9 = 0xAB then
        (let pm25 = real_of_int (uint (d ! 2) + uint (d ! 3) * 256) / 10;
             pm10 = real_of_int (uint (d ! 4) + uint (d ! 5) * 256) / 10
         in (Some pm25, Some pm10))
      else (None, None))"

definition cmd_query_data ::
  "serial \<Rightarrow> ((error + real option \<times> real option) \<times> serial) option" where
  "cmd_query_data s =
     (case fst (construct_command CMD_QUERY_DATA None) of
        Inl e \<Rightarrow> Some (Inl e, s)
      | Inr cmd \<Rightarrow>
         (case read_response (ser_write cmd s) of
            None \<Rightarrow> None
          | Some (Inl e, s') \<Rightarrow> Some (Inl e, s')
          | Some (Inr d, s') \<Rightarrow> Some (Inr (cmd_query_data_decode d), s')))"

text \<open>The frame that \<^verbatim>\<open>construct_command(CMD_QUERY_DATA)\<close> returns.\<close>

definition query_frame :: bytes where
  "query_frame = [0xAA, 0xB4, 4, 0, 0, 0, 0, 0, 0, 0, 0, 0, 0, 0, 0, 0xFF, 0xFF, 2, 0xAB]"

section \<open>Snapshot file\<close>

text \<open>
  A path is a directory and a file name; \<^verbatim>\<open>os.path.dirname\<close> is the first component.
  A file holds the chunks written to it so far and its permission bits.  \<^verbatim>\<open>json.dump\<close>
  writes the object chunk by chunk (\<^verbatim>\<open>for chunk in iterencode(obj): fp.write(chunk)\<close>);
  \<open>Key k\<close> is the quoted key, \<open>IntLit\<close> and \<open>FloatLit\<close> are the printed numbers.
\<close>

type_synonym path = "string \<times> string"

datatype chunk = Punct string | Key string | IntLit int | FloatLit real

record fileobj =
  content :: "chunk list"
  mode :: nat

record filesys =
  dirs :: "string set"
  files :: "path \<rightharpoonup> fileobj"

text \<open>The calls to the operating system that \<^verbatim>\<open>write_json\<close> makes; the environment
  decides which of them fail (\<open>Write k\<close> is the write of the \<open>k\<close>-th chunk).\<close>

datatype os_call = Makedirs | Mkstemp | Write nat | Chmod | Replace

definition json_chunks :: "int \<Rightarrow> real \<Rightarrow> real \<Rightarrow> chunk list" where
  "json_chunks ts pm25 pm10 =
     [Punct ''{'', Key ''dateTime'', Punct '': '', IntLit ts,
      Punct '', '', Key ''pm2_5'', Punct '': '', FloatLit pm25,
      Punct '', '', Key ''pm10_0'', Punct '': '', FloatLit pm10, Punct ''}'']"

text \<open>
  The calls themselves.  \<^verbatim>\<open>os.makedirs(d, exist_ok=True)\<close>; the creation of an empty file
  with the permission bits of a temporary file (\<open>0x180\<close>, octal 600); a write, which
  appends a chunk; \<^verbatim>\<open>os.chmod\<close>; and \<^verbatim>\<open>os.replace\<close>, which in one step makes the
  destination name the source file and removes the source name.
\<close>

definition os_makedirs :: "string \<Rightarrow> filesys \<Rightarrow> filesys" where
  "os_makedirs d f = f\<lparr>dirs := insert d (dirs f)\<rparr>"

definition os_create :: "path \<Rightarrow> filesys \<Rightarrow> filesys" where
  "os_create p f = f\<lparr>files := (files f)(p \<mapsto> \<lparr>content = [], mode = 0x180\<rparr>)\<rparr>"

definition os_write :: "path \<Rightarrow> chunk \<Rightarrow> filesys \<Rightarrow> filesys" where
  "os_write p c f =
     f\<lparr>files := (files f)(p := map_option (\<lambda>x. x\<lparr>content := content x @ [c]\<rparr>) (files f p))\<rparr>"

definition os_chmod :: "path \<Rightarrow> nat \<Rightarrow> filesys \<Rightarrow> filesys" where
  "os_chmod p m f = f\<lparr>files := (files f)(p := map_option (\<lambda>x. x\<lparr>mode := m\<rparr>) (files f p))\<rparr>"

definition os_replace :: "path \<Rightarrow> path \<Rightarrow> filesys \<Rightarrow> filesys" where
  "os_replace src dst f =
     (if src = dst then f else f\<lparr>files := ((files f)(dst := files f src))(src := None)\<rparr>)"

text \<open>
  \<^verbatim>\<open>json.dump(data, tmpfile)\<close> into the file \<open>tmp\<close>: the file systems after each chunk
  written, and whether all chunks were written.  \<open>k\<close> numbers the chunk.
\<close>

fun json_dump ::
  "(os_call \<Rightarrow> bool) \<Rightarrow> path \<Rightarrow> filesys \<Rightarrow> nat \<Rightarrow> chunk list \<Rightarrow> filesys list \<times> bool"
where
  "json_dump deny tmp f k [] = ([], True)"
| "json_dump deny tmp f k (c # cs) =
     (if deny (Write k) then ([], False)
      else
        let f' = os_write tmp c f;
            (tr, ok) = json_dump deny tmp f' (Suc k) cs
        in (f' # tr, ok))"

text \<open>
  \<^verbatim>\<open>write_json(ts, pm25, pm10)\<close> as the sequence of file systems after each call that
  succeeded.  The first failing call raises, the \<^verbatim>\<open>except\<close> clause logs it, and nothing
  more is done.  \<^verbatim>\<open>os.makedirs('')\<close> raises.  \<^verbatim>\<open>NamedTemporaryFile\<close> takes the first of
  the candidate names \<open>names\<close> that does not exist in the directory.  \<open>0x1A4\<close> is the
  octal 644 of \<^verbatim>\<open>os.chmod(tmpname, 0o644)\<close>.
\<close>

definition write_json_trace ::
  "(os_call \<Rightarrow> bool) \<Rightarrow> string list \<Rightarrow> path \<Rightarrow> filesys \<Rightarrow> int \<Rightarrow> real \<Rightarrow> real \<Rightarrow> filesys list"
where
  "write_json_trace deny names dest f0 ts pm25 pm10 =
     (let dirpath = fst dest in
      if dirpath = [] \<or> deny Makedirs then []
      else
        let f1 = os_makedirs dirpath f0 in
        f1 #
        (case find (\<lambda>n. files f1 (dirpath, n) = None) names of
           None \<Rightarrow> []
         | Some n \<Rightarrow>
            if deny Mkstemp then []
            else
              let tmpname = (dirpath, n);
                  f2 = os_create tmpname f1;
                  (tr, ok) = json_dump deny tmpname f2 0 (json_chunks ts pm25 pm10);
                  f3 = last (f2 # tr)
              in f2 # tr @
                 (if \<not> ok \<or> deny Chmod then []
                  else
                    let f4 = os_chmod tmpname 0x1A4 f3
                    in f4 # (if deny Replace then [] else [os_replace tmpname dest f4]))))"

definition write_json ::
  "(os_call \<Rightarrow> bool) \<Rightarrow> string list \<Rightarrow> path \<Rightarrow> filesys \<Rightarrow> int \<Rightarrow> real \<Rightarrow> real \<Rightarrow> filesys"
where
  "write_json deny names dest f0 ts pm25 pm10 =
     last (f0 # write_json_trace deny names dest f0 ts pm25 pm10)"

text \<open>The file that a complete publish leaves at the destination.\<close>

definition snapshot :: "int \<Rightarrow> real \<Rightarrow> real \<Rightarrow> fileobj" where
  "snapshot ts pm25 pm10 = \<lparr>content = json_chunks ts pm25 pm10, mode = 0x1A4\<rparr>"


section \<open>The service and its duty cycle\<close>

text \<open>
  The fields of \<^verbatim>\<open>NovaSDS011Service\<close> that the loop uses, and the environment it runs
  in: the readings \<open>clock\<close> that successive calls of \<^verbatim>\<open>time.time()\<close> return, the
  file system, the calls it refuses and the names \<^verbatim>\<open>tempfile\<close> proposes.  \<open>lock\<close> is
  the owner of \<^verbatim>\<open>self.lock\<close>, if it is held.
\<close>

datatype owner = Worker | Host

record service =
  latest_pm25 :: "real option"
  latest_pm10 :: "real option"
  last_update :: "int option"
  lock :: "owner option"
  ser :: serial
  read_period :: int
  json_output :: path

record world = service +
  clock :: "nat \<Rightarrow> real"
  ticks :: nat
  fs :: filesys
  refused :: "os_call \<Rightarrow> bool"
  tmp_names :: "string list"

definition time_time :: "world \<Rightarrow> real \<times> world" where
  "time_time w = (clock w (ticks w), w\<lparr>ticks := ticks w + 1\<rparr>)"

text \<open>\<^verbatim>\<open>int(x)\<close> of a float: truncation towards zero.\<close>

definition py_int :: "real \<Rightarrow> int" where
  "py_int x = (if 0 \<le> x then \<lfloor>x\<rfloor> else \<lceil>x\<rceil>)"

text \<open>
  The sampling loop \<^verbatim>\<open>while time.time() - start_time < self.read_period\<close>.  An exception
  of the query is caught and logged; a pair of values is appended to \<open>samples\<close>.
\<close>

partial_function (option)
  sampling_loop :: "real \<Rightarrow> world \<Rightarrow> (real \<times> real) list \<Rightarrow> (world \<times> (real \<times> real) list) option"
where
  "sampling_loop start_time w samples =
     (let (now, w1) = time_time w in
      if now - start_time < real_of_int (read_period w) then
        (case cmd_query_data (ser w1) of
           None \<Rightarrow> None
         | Some (r, s') \<Rightarrow>
             sampling_loop start_time (w1\<lparr>ser := s'\<rparr>)
               (case r of
                  Inr (Some pm25, Some pm10) \<Rightarrow> samples @ [(pm25, pm10)]
                | _ \<Rightarrow> samples))
      else Some (w1, samples))"

declare sampling_loop.simps [code]

text \<open>
  The end of the reading period: \<^verbatim>\<open>if samples:\<close> takes \<^verbatim>\<open>samples[-1]\<close>, stores it with
  the time in the cache and writes the snapshot file; otherwise it only logs a warning.
\<close>

definition publish :: "world \<Rightarrow> (real \<times> real) list \<Rightarrow> world" where
  "publish w samples =
     (if samples \<noteq> [] then
        let (pm25, pm10) = last samples;
            (now, w1) = time_time w;
            w2 = w1\<lparr>latest_pm25 := Some pm25, latest_pm10 := Some pm10,
                    last_update := Some (py_int now)\<rparr>
        in w2\<lparr>fs := write_json (refused w2) (tmp_names w2) (json_output w2) (fs w2)
                       (py_int now) pm25 pm10\<rparr>
      else w)"

text \<open>
  The reading period of one pass: \<^verbatim>\<open>start_time = time.time()\<close>, \<^verbatim>\<open>samples = []\<close> and
  the sampling loop.
\<close>

definition read_phase :: "world \<Rightarrow> (world \<times> (real \<times> real) list) option" where
  "read_phase w = (let (start_time, w1) = time_time w in sampling_loop start_time w1 [])"

text \<open>
  One pass of the body of \<^verbatim>\<open>while self.running\<close>: wake, sample, publish, sleep.  An
  exception of a sleep or wake command ends the pass in the \<^verbatim>\<open>except\<close> clause.
\<close>

definition cycle :: "world \<Rightarrow> world option" where
  "cycle w =
     (case cmd_set_sleep 0 (ser w) of
        None \<Rightarrow> None
      | Some (Inl e, s1) \<Rightarrow> Some (w\<lparr>ser := s1\<rparr>)
      | Some (Inr u, s1) \<Rightarrow>
          (case read_phase (w\<lparr>ser := s1\<rparr>) of
             None \<Rightarrow> None
           | Some (w2, samples) \<Rightarrow>
               let w3 = publish w2 samples in
               (case cmd_set_sleep 1 (ser w3) of
                  None \<Rightarrow> None
                | Some (r, s4) \<Rightarrow> Some (w3\<lparr>ser := s4\<rparr>))))"

text \<open>\<^verbatim>\<open>new_loop_packet\<close>: the packet is a dictionary from field names to values.\<close>

definition new_loop_packet :: "world \<Rightarrow> (string \<rightharpoonup> real) \<Rightarrow> (string \<rightharpoonup> real)" where
  "new_loop_packet w packet =
     (case (latest_pm25 w, latest_pm10 w) of
        (Some a, Some b) \<Rightarrow> packet(''pm2_5'' \<mapsto> a, ''pm10_0'' \<mapsto> b)
      | _ \<Rightarrow> packet)"

text \<open>
  The threads and the lock.  The worker is outside the block \<^verbatim>\<open>with self.lock:\<close> of
  \<^verbatim>\<open>sensor_loop\<close>, or inside it with the sample \<open>(pm25, pm10)\<close> after \<open>k\<close> of its three
  assignments.  It enters only when the lock is free; so does the host thread, which
  holds the lock while \<^verbatim>\<open>new_loop_packet\<close> reads the cache.  Every other step of either
  thread leaves the cache and the lock as they are.  The service starts with the
  three cache fields \<open>None\<close> and the lock free.
\<close>

datatype pc = Outside | Inside real real nat

definition same_cache :: "world \<Rightarrow> world \<Rightarrow> bool" where
  "same_cache w w' \<longleftrightarrow>
     latest_pm25 w' = latest_pm25 w \<and> latest_pm10 w' = latest_pm10 w \<and>
     last_update w' = last_update w \<and> lock w' = lock w"

inductive reachable :: "world \<Rightarrow> pc \<Rightarrow> bool" where
  init:
    "latest_pm25 w = None \<Longrightarrow> latest_pm10 w = None \<Longrightarrow> last_update w = None \<Longrightarrow>
     lock w = None \<Longrightarrow> reachable w Outside"
| acquire:
    "reachable w Outside \<Longrightarrow> lock w = None \<Longrightarrow>
     reachable (w\<lparr>lock := Some Worker\<rparr>) (Inside pm25 pm10 0)"
| set_pm25:
    "reachable w (Inside pm25 pm10 0) \<Longrightarrow>
     reachable (w\<lparr>latest_pm25 := Some pm25\<rparr>) (Inside pm25 pm10 1)"
| set_pm10:
    "reachable w (Inside pm25 pm10 1) \<Longrightarrow>
     reachable (w\<lparr>latest_pm10 := Some pm10\<rparr>) (Inside pm25 pm10 2)"
| set_update:
    "reachable w (Inside pm25 pm10 2) \<Longrightarrow>
     reachable (w\<lparr>last_update := Some t\<rparr>) (Inside pm25 pm10 3)"
| release:
    "reachable w (Inside pm25 pm10 3) \<Longrightarrow> reachable (w\<lparr>lock := None\<rparr>) Outside"
| host_acquire:
    "reachable w p \<Longrightarrow> lock w = None \<Longrightarrow> reachable (w\<lparr>lock := Some Host\<rparr>) p"
| host_release:
    "reachable w p \<Longrightarrow> lock w = Some Host \<Longrightarrow> reachable (w\<lparr>lock := None\<rparr>) p"
| other:
    "reachable w p \<Longrightarrow> same_cache w w' \<Longrightarrow> reachable w' p"

text \<open>What holds of a result of the sampling loop started from \<open>w\<close> and \<open>samples\<close>: only
  the serial port and the clock position have changed, and samples were appended.\<close>

definition sampling_post ::
  "real \<Rightarrow> world \<Rightarrow> (real \<times> real) list \<Rightarrow> world \<times> (real \<times> real) list \<Rightarrow> bool" where
  "sampling_post start_time w samples y =
     (case y of (w', samples') \<Rightarrow>
        w' = w\<lparr>ser := ser w', ticks := ticks w'\<rparr> \<and> ticks w < ticks w' \<and>
        \<not> clock w (ticks w' - 1) - start_time < real_of_int (read_period w) \<and>
        (\<exists>new. samples' = samples @ new))"

text \<open>Concrete environments: a file system with nothing in it, an operating system
  that refuses no call, a clock that advances 20 seconds between two readings, and
  the default destination of the snapshot.\<close>

definition empty_fs :: filesys where
  "empty_fs = \<lparr>dirs = {}, files = Map.empty\<rparr>"

definition permissive :: "os_call \<Rightarrow> bool" where
  "permissive c = False"

definition clock20 :: "nat \<Rightarrow> real" where
  "clock20 n = 1700000000 + 20 * real n"

definition default_json_output :: path where
  "default_json_output = (''/var/www/html/divumwx/jsondata'', ''particles.txt'')"

text \<open>The next \<open>n\<close> events of the input line, and the frames of the wake and the sleep
  command (\<^verbatim>\<open>construct_command(CMD_SLEEP, [0x1, 1])\<close> and \<^verbatim>\<open>[0x1, 0]\<close>).\<close>

definition incoming :: "serial \<Rightarrow> nat \<Rightarrow> byte option list" where
  "incoming s n = map (rx s) [pos s..<pos s + n]"

definition wake_frame :: bytes where
  "wake_frame = [0xAA, 0xB4, 6, 1, 1, 0, 0, 0, 0, 0, 0, 0, 0, 0, 0, 0xFF, 0xFF, 6, 0xAB]"

definition sleep_frame :: bytes where
  "sleep_frame = [0xAA, 0xB4, 6, 1, 0, 0, 0, 0, 0, 0, 0, 0, 0, 0, 0, 0xFF, 0xFF, 5, 0xAB]"

text \<open>
  Two runs.  In the first the sensor acknowledges the wake command, answers three
  queries with the values 1.0, 2.0 and 3.0, and acknowledges the sleep command; the
  reading period is 70 seconds.  In the second it acknowledges the wake command and
  is silent afterwards; the cache holds an earlier reading.
\<close>

definition busy_events :: "byte option list" where
  "busy_events =
     [Some 0xAA, Some 0xC5, Some 6, Some 1, Some 1, Some 0, Some 0xA1, Some 0x60, Some 9, Some 0xAB,
      Some 0xAA, Some 0xC0, Some 10, Some 0, Some 10, Some 0, Some 0xA1, Some 0x60, Some 21, Some 0xAB,
      Some 0xAA, Some 0xC0, Some 20, Some 0, Some 20, Some 0, Some 0xA1, Some 0x60, Some 41, Some 0xAB,
      Some 0xAA, Some 0xC0, Some 30, Some 0, Some 30, Some 0, Some 0xA1, Some 0x60, Some 61, Some 0xAB,
      Some 0xAA, Some 0xC5, Some 6, Some 1, Some 0, Some 0, Some 0xA1, Some 0x60, Some 8, Some 0xAB]"

definition busy_ser :: "nat \<Rightarrow> bytes list \<Rightarrow> serial" where
  "busy_ser k t = \<lparr>rx = line busy_events, pos = k, tx = t\<rparr>"

definition busy_world :: world where
  "busy_world =
     \<lparr>latest_pm25 = None, latest_pm10 = None, last_update = None, lock = None,
      ser = busy_ser 0 [], read_period = 70, json_output = default_json_output,
      clock = clock20, ticks = 0, fs = empty_fs, refused = permissive,
      tmp_names = [''tmpk3v9x_ab'']\<rparr>"

definition quiet_events :: "byte option list" where
  "quiet_events =
     [Some 0xAA, Some 0xC5, Some 6, Some 1, Some 1, Some 0, Some 0xA1, Some 0x60, Some 9, Some 0xAB]"

definition quiet_ser :: "nat \<Rightarrow> bytes list \<Rightarrow> serial" where
  "quiet_ser k t = \<lparr>rx = line quiet_events, pos = k, tx = t\<rparr>"

definition quiet_world :: world where
  "quiet_world =
     \<lparr>latest_pm25 = Some 7.5, latest_pm10 = Some 9, last_update = Some 1699999000,
      lock = None, ser = quiet_ser 0 [], read_period = 60,
      json_output = default_json_output, clock = clock20, ticks = 0, fs = empty_fs,
      refused = permissive, tmp_names = [''tmpk3v9x_ab'']\<rparr>"

text \<open>The worlds at the end of the pass of the loop in the two runs.\<close>

definition busy_done :: world where
  "busy_done =
     (publish
        (busy_world\<lparr>ser := busy_ser 40 [wake_frame, query_frame, query_frame, query_frame],
                     ticks := 5\<rparr>)
        [(1, 1), (2, 2), (3, 3)])
     \<lparr>ser := busy_ser 50 [wake_frame, query_frame, query_frame, query_frame, sleep_frame]\<rparr>"

definition quiet_done :: world where
  "quiet_done =
     quiet_world\<lparr>ser := quiet_ser 40 [wake_frame, query_frame, query_frame, sleep_frame],
                 ticks := 4\<rparr>"

subsection \<open>Properties of the codec\<close>

lemma to_bytes_ok: "byte_values xs \<Longrightarrow> to_bytes xs = Inr (map word_of_int xs)"
  by (simp add: to_bytes_def)

lemma to_bytes_error: "to_bytes xs = Inl e \<Longrightarrow> e = ValueError"
  by (simp add: to_bytes_def split: if_splits)

lemma byte_values_padded: "byte_values xs \<Longrightarrow> byte_values (padded xs)"
  by (auto simp: byte_values_def padded_def list_all_iff)

lemma length_padded: "length xs \<le> 12 \<Longrightarrow> length (padded xs) = 12"
  by (simp add: padded_def)

lemma padded_idem: "length xs \<le> 12 \<Longrightarrow> padded (padded xs) = padded xs"
  by (simp add: padded_def)

lemma construct_command_too_long:
  "12 < length data \<Longrightarrow> construct_command cmd (Some data) = (Inl AssertionError, Some data)"
  by (simp add: construct_command_def)

lemma construct_command_ok:
  assumes "length data \<le> 12" "byte_values data" "0 \<le> cmd" "cmd < 256"
  shows "construct_command cmd (Some data) =
     (Inr ([0xAA, 0xB4, word_of_int cmd] @ map word_of_int (padded data) @
           [0xFF, 0xFF, word_of_int ((sum_list (padded data) + cmd - 2) mod 256), 0xAB]),
      Some (padded data))"
proof -
  have c: "to_bytes [cmd] = Inr [word_of_int cmd]"
    using assms by (simp add: to_bytes_def byte_values_def)
  have p: "to_bytes (padded data) = Inr (map word_of_int (padded data))"
    using assms by (simp add: to_bytes_ok byte_values_padded)
  have k: "to_bytes [(sum_list (padded data) + cmd - 2) mod 256] =
      Inr [word_of_int ((sum_list (padded data) + cmd - 2) mod 256)]"
    by (simp add: to_bytes_def byte_values_def)
  show ?thesis
    using assms(1) c p k
    by (simp add: construct_command_def Let_def padded_def[symmetric])
qed

lemma construct_command_None:
  "fst (construct_command cmd None) = fst (construct_command cmd (Some []))"
  by (simp add: construct_command_def Let_def)

lemma construct_command_not_assertion:
  assumes "length data \<le> 12"
  shows "fst (construct_command cmd (Some data)) \<noteq> Inl AssertionError"
  using assms
  by (auto simp: construct_command_def Let_def split: sum.splits dest: to_bytes_error)

lemma frame_layout:
  "length p = 12 \<Longrightarrow>
     length ([a, b, c] @ p @ [d, e, k, t]) = 19 \<and> ([a, b, c] @ p @ [d, e, k, t]) ! 17 = k"
  by (simp add: nth_append)

text \<open>
  Calling the function again on the list it has padded gives the same frame: the
  in-place padding does not change what equal arguments return.
\<close>

lemma construct_command_deterministic:
  assumes "construct_command cmd (Some data) = (r, Some data')"
  shows "fst (construct_command cmd (Some data')) = r"
proof (cases "length data \<le> 12")
  case False
  then show ?thesis using assms by (simp add: construct_command_def)
next
  case True
  then have d: "data' = padded data"
    using assms by (auto simp: construct_command_def Let_def padded_def)
  have "length (padded data) = 12" using True by (rule length_padded)
  then have "padded data @ replicate (12 - length (padded data)) 0 = padded data"
    by simp
  then show ?thesis
    using assms True d
    by (simp add: construct_command_def Let_def padded_def[symmetric] length_padded)
qed

text \<open>
  C1: for every command code in \<open>{2, 4, 6}\<close> and every sequence of byte values of
  length at most 12, the frame is built and its byte 17 is
  \<open>(sum of the zero-padded data + command - 2) mod 256\<close>; the same holds of the call
  without data, whose padded data are twelve zeros.
\<close>

theorem construct_command_checksum:
  assumes "cmd \<in> {CMD_MODE, CMD_QUERY_DATA, CMD_SLEEP}"
    and "length data \<le> 12" and "byte_values data"
  shows "(\<exists>frame. fst (construct_command cmd (Some data)) = Inr frame \<and>
           uint (frame ! 17) = (sum_list (padded data) + cmd - 2) mod 256) \<and>
         (\<exists>frame. fst (construct_command cmd None) = Inr frame \<and>
           uint (frame ! 17) = (sum_list (padded []) + cmd - 2) mod 256)"
proof -
  have r: "0 \<le> cmd" "cmd < 256"
    using assms(1) by (auto simp: CMD_MODE_def CMD_QUERY_DATA_def CMD_SLEEP_def)
  have byte17: "\<exists>frame. fst (construct_command cmd (Some xs)) = Inr frame \<and>
           uint (frame ! 17) = (sum_list (padded xs) + cmd - 2) mod 256"
    if len: "length xs \<le> 12" and bv: "byte_values xs" for xs
  proof -
    let ?k = "word_of_int ((sum_list (padded xs) + cmd - 2) mod 256) :: byte"
    have l: "length (map word_of_int (padded xs) :: bytes) = 12"
      using len by (simp add: length_padded)
    have "fst (construct_command cmd (Some xs)) =
        Inr ([0xAA, 0xB4, word_of_int cmd] @ map word_of_int (padded xs) @ [0xFF, 0xFF, ?k, 0xAB])"
      using construct_command_ok [OF len bv r] by simp
    moreover have "([0xAA, 0xB4, word_of_int cmd] @ map word_of_int (padded xs) @
        [0xFF, 0xFF, ?k, 0xAB]) ! 17 = ?k"
      using frame_layout [OF l] by blast
    moreover have "uint ?k = (sum_list (padded xs) + cmd - 2) mod 256"
      by (simp add: uint_word_of_int)
    ultimately show ?thesis by simp
  qed
  have "byte_values []" by (simp add: byte_values_def)
  then have "\<exists>frame. fst (construct_command cmd (Some [])) = Inr frame \<and>
           uint (frame ! 17) = (sum_list (padded []) + cmd - 2) mod 256"
    by (intro byte17) simp_all
  then show ?thesis
    using byte17 [OF assms(2,3)] by (simp only: construct_command_None simp_thms)
qed

theorem construct_command_checksum_witness:
  "CMD_SLEEP \<in> {CMD_MODE, CMD_QUERY_DATA, CMD_SLEEP} \<and> length [1, 255 :: int] \<le> 12 \<and>
   byte_values [1, 255] \<and>
   (\<exists>frame. fst (construct_command CMD_SLEEP (Some [1, 255])) = Inr frame \<and>
      uint (frame ! 17) = 4) \<and>
   (\<exists>frame. fst (construct_command CMD_SLEEP None) = Inr frame \<and> uint (frame ! 17) = 4)"
proof -
  have h: "CMD_SLEEP \<in> {CMD_MODE, CMD_QUERY_DATA, CMD_SLEEP}" "length [1, 255 :: int] \<le> 12"
    "byte_values [1, 255]"
    by (simp_all add: byte_values_def)
  show ?thesis
    using h construct_command_checksum [OF h]
    by (simp add: padded_def CMD_SLEEP_def eval_nat_numeral)
qed

text \<open>
  C7: the call fails on the assertion exactly when the data is longer than 12; for
  byte values of length at most 12 and a command code that is a byte, it returns the
  19 bytes \<open>AA B4\<close>, the command, the 12 zero-padded data bytes, \<open>FF FF\<close>, the
  checksum, \<open>AB\<close>.
\<close>

theorem construct_command_frame:
  "(fst (construct_command cmd (Some data)) = Inl AssertionError \<longleftrightarrow> 12 < length data) \<and>
   (length data \<le> 12 \<and> byte_values data \<and> 0 \<le> cmd \<and> cmd < 256 \<longrightarrow>
      (\<exists>frame. fst (construct_command cmd (Some data)) = Inr frame \<and>
         length frame = 19 \<and>
         frame = [0xAA, 0xB4, word_of_int cmd] @ map word_of_int (padded data) @
                 [0xFF, 0xFF, word_of_int ((sum_list (padded data) + cmd - 2) mod 256), 0xAB] \<and>
         length (padded data) = 12 \<and>
         take (length data) (padded data) = data \<and>
         drop (length data) (padded data) = replicate (12 - length data) 0))"
proof (intro conjI impI)
  show "fst (construct_command cmd (Some data)) = Inl AssertionError \<longleftrightarrow> 12 < length data"
    using construct_command_too_long [of data cmd] construct_command_not_assertion [of data cmd]
    by (cases "12 < length data") auto
next
  assume a: "length data \<le> 12 \<and> byte_values data \<and> 0 \<le> cmd \<and> cmd < 256"
  then have l: "length (map word_of_int (padded data) :: bytes) = 12"
    by (simp add: length_padded)
  have "fst (construct_command cmd (Some data)) =
      Inr ([0xAA, 0xB4, word_of_int cmd] @ map word_of_int (padded data) @
        [0xFF, 0xFF, word_of_int ((sum_list (padded data) + cmd - 2) mod 256), 0xAB])"
    using a construct_command_ok [of data cmd] by simp
  moreover have "length ([0xAA, 0xB4, word_of_int cmd] @ map word_of_int (padded data) @
        [0xFF, 0xFF, word_of_int ((sum_list (padded data) + cmd - 2) mod 256), 0xAB :: byte]) = 19"
    using frame_layout [OF l] by blast
  moreover have "length (padded data) = 12" using a by (simp add: length_padded)
  moreover have "take (length data) (padded data) = data"
    "drop (length data) (padded data) = replicate (12 - length data) 0"
    by (simp_all add: padded_def)
  ultimately show "\<exists>frame. fst (construct_command cmd (Some data)) = Inr frame \<and>
         length frame = 19 \<and>
         frame = [0xAA, 0xB4, word_of_int cmd] @ map word_of_int (padded data) @
                 [0xFF, 0xFF, word_of_int ((sum_list (padded data) + cmd - 2) mod 256), 0xAB] \<and>
         length (padded data) = 12 \<and>
         take (length data) (padded data) = data \<and>
         drop (length data) (padded data) = replicate (12 - length data) 0"
    by simp
qed

theorem construct_command_frame_witness:
  "length [1, 0 :: int] \<le> 12 \<and> byte_values [1, 0] \<and> (0::int) \<le> 6 \<and> (6::int) < 256 \<and>
   fst (construct_command 6 (Some [1, 0])) =
     Inr [0xAA, 0xB4, 6, 1, 0, 0, 0, 0, 0, 0, 0, 0, 0, 0, 0, 0xFF, 0xFF, 5, 0xAB] \<and>
   fst (construct_command 6 (Some [1, 2, 3, 4, 5, 6, 7, 8, 9, 10, 11, 12, 13])) =
     Inl AssertionError"
proof -
  have h: "length [1, 0 :: int] \<le> 12 \<and> byte_values [1, 0] \<and> (0::int) \<le> 6 \<and> (6::int) < 256"
    by (simp add: byte_values_def)
  show ?thesis
    using h construct_command_frame [of 6 "[1, 0]"]
      construct_command_frame [of 6 "[1, 2, 3, 4, 5, 6, 7, 8, 9, 10, 11, 12, 13]"]
    by (simp add: padded_def eval_nat_numeral)
qed

text \<open>
  C8: the claim that the caller's data sequence is the same after the call does not
  hold of the code.  With the command code 2 and the caller's list \<open>[1, 1]\<close> the frame
  is returned and the caller's list has become the 12-element padded list.
\<close>

theorem construct_command_pads_caller_list:
  "construct_command 2 (Some [1, 1]) =
     (Inr [0xAA, 0xB4, 2, 1, 1, 0, 0, 0, 0, 0, 0, 0, 0, 0, 0, 0xFF, 0xFF, 2, 0xAB],
      Some [1, 1, 0, 0, 0, 0, 0, 0, 0, 0, 0, 0])"
  by (simp add: construct_command_def to_bytes_def byte_values_def eval_nat_numeral)

subsection \<open>Properties of the response reader\<close>

lemma timeouts_empty [simp]: "timeouts f a a = 0"
  by (simp add: timeouts_def)

lemma timeouts_step:
  "a < b \<Longrightarrow> timeouts f a b = (if f a = None then 1 else 0) + timeouts f (Suc a) b"
  by (simp add: timeouts_def upt_conv_Cons)

lemma timeouts_chatter [simp]: "timeouts (chatter b) i j = 0"
  by (simp add: timeouts_def chatter_def)

lemma ser_read_1:
  "ser_read 1 s = ((case rx s (pos s) of None \<Rightarrow> [] | Some b \<Rightarrow> [b]), s\<lparr>pos := pos s + 1\<rparr>)"
  by (simp split: option.splits)

lemma read_header_stop:
  "byte = [0xAA] \<or> 10 \<le> retries \<Longrightarrow> read_header s byte retries = Some (s, byte, retries)"
  by (subst read_header.simps) auto

lemma read_header_step:
  "byte \<noteq> [0xAA] \<Longrightarrow> retries < 10 \<Longrightarrow>
   read_header s byte retries =
     read_header (s\<lparr>pos := pos s + 1\<rparr>) (case rx s (pos s) of None \<Rightarrow> [] | Some b \<Rightarrow> [b])
       (if rx s (pos s) = None then retries + 1 else retries)"
  by (subst read_header.simps) (auto simp: ser_read_1 split: option.splits)

lemma read_header_post:
  assumes "read_header s byte retries = Some y"
  shows "scan_post s byte retries y"
proof (rule read_header.raw_induct [where P = scan_post, OF _ assms])
  fix f s byte retries y
  assume IH: "\<And>s byte retries y. f s byte retries = Some y \<Longrightarrow> scan_post s byte retries y"
    and body: "(if byte \<noteq> [0xAA] \<and> retries < 10
          then let (byte', s') = ser_read 1 s
               in f s' byte' (if byte' = [] then retries + 1 else retries)
          else Some (s, byte, retries)) = Some y"
  show "scan_post s byte retries y"
  proof (cases "byte \<noteq> [0xAA] \<and> retries < 10")
    case False
    with body have "y = (s, byte, retries)" by auto
    moreover have "byte = [0xAA] \<or> 10 \<le> retries" using False by auto
    ultimately show ?thesis by (auto simp: scan_post_def)
  next
    case True
    let ?s1 = "s\<lparr>pos := pos s + 1\<rparr>"
    let ?b1 = "case rx s (pos s) of None \<Rightarrow> [] | Some b \<Rightarrow> [b]"
    let ?r1 = "if rx s (pos s) = None then retries + 1 else retries"
    from True body have "f ?s1 ?b1 ?r1 = Some y"
      by (auto simp: ser_read_1 split: option.splits)
    from IH [OF this] have p: "scan_post ?s1 ?b1 ?r1 y" .
    obtain s' byte' retries' where y: "y = (s', byte', retries')" by (cases y) auto
    have le: "pos s < pos s'" using p y by (simp add: scan_post_def)
    have t: "timeouts (rx s) (pos s) (pos s') =
        (if rx s (pos s) = None then 1 else 0) + timeouts (rx s) (Suc (pos s)) (pos s')"
      using le by (rule timeouts_step)
    have hdr: "rx s (pos s) = Some 0xAA \<Longrightarrow> byte' = [0xAA] \<and> pos s' = pos s + 1"
      using p y by (auto simp: scan_post_def)
    have nohdr: "byte' \<noteq> [0xAA] \<Longrightarrow> pos s \<le> i \<Longrightarrow> i < pos s' \<Longrightarrow> rx s i \<noteq> Some 0xAA" for i
    proof (cases "i = pos s")
      case True
      assume "byte' \<noteq> [0xAA]"
      then show ?thesis using hdr True by auto
    next
      case False
      assume "byte' \<noteq> [0xAA]" "pos s \<le> i" "i < pos s'"
      then show ?thesis using p y False by (simp add: scan_post_def)
    qed
    have found: "rx s (pos s' - 1) = Some 0xAA" if "byte' = [0xAA]"
    proof (cases "rx s (pos s) = Some 0xAA")
      case True
      then show ?thesis using hdr by simp
    next
      case False
      then have "?b1 \<noteq> [0xAA]" by (auto split: option.splits)
      then show ?thesis using p y that by (simp add: scan_post_def)
    qed
    have "s' = s\<lparr>pos := pos s'\<rparr>"
      using p y by (auto simp: scan_post_def)
    moreover have "retries' = retries + timeouts (rx s) (pos s) (pos s')"
      using p y t by (auto simp: scan_post_def)
    moreover have "byte' = [0xAA] \<or> 10 \<le> retries'"
      using p y by (auto simp: scan_post_def)
    moreover have "retries \<le> 10 \<longrightarrow> retries' \<le> 10"
      using p y True by (auto simp: scan_post_def)
    ultimately show ?thesis
      using y le True nohdr found by (simp add: scan_post_def)
  qed
qed

lemma read_header_terminates:
  "rx s (pos s + n) = Some 0xAA \<or> 10 \<le> retries + timeouts (rx s) (pos s) (pos s + n) \<Longrightarrow>
   \<exists>y. read_header s byte retries = Some y"
proof (induction n arbitrary: s byte retries)
  case 0
  show ?case
  proof (cases "byte \<noteq> [0xAA] \<and> retries < 10")
    case False
    then have "byte = [0xAA] \<or> 10 \<le> retries" by auto
    then show ?thesis by (simp add: read_header_stop)
  next
    case True
    with 0 have "rx s (pos s) = Some 0xAA" by simp
    with True show ?thesis by (simp add: read_header_step read_header_stop)
  qed
next
  case (Suc n)
  show ?case
  proof (cases "byte \<noteq> [0xAA] \<and> retries < 10")
    case False
    then have "byte = [0xAA] \<or> 10 \<le> retries" by auto
    then show ?thesis by (simp add: read_header_stop)
  next
    case True
    let ?s1 = "s\<lparr>pos := pos s + 1\<rparr>"
    let ?r1 = "if rx s (pos s) = None then retries + 1 else retries"
    have t: "timeouts (rx s) (pos s) (pos s + Suc n) =
        (if rx s (pos s) = None then 1 else 0) + timeouts (rx s) (Suc (pos s)) (pos s + Suc n)"
      by (rule timeouts_step) simp
    have "rx ?s1 (pos ?s1 + n) = Some 0xAA \<or> 10 \<le> ?r1 + timeouts (rx ?s1) (pos ?s1) (pos ?s1 + n)"
      using Suc.prems t by auto
    from Suc.IH [OF this] show ?thesis
      using True by (simp add: read_header_step)
  qed
qed

lemma read_response_returns_iff:
  "(\<exists>y. read_response s = Some y) \<longleftrightarrow> (\<exists>y. read_header s [] 0 = Some y)"
  by (auto simp: read_response_def split: option.splits prod.splits if_splits)

lemma read_response_NoResponse:
  "read_header s [] 0 = Some (s1, byte, retries) \<Longrightarrow>
   (read_response s = Some (Inl NoResponse, s1) \<longleftrightarrow> byte \<noteq> [0xAA])"
  by (auto simp: read_response_def split: prod.splits if_splits)

lemma read_header_returns_iff:
  "(\<exists>y. read_header s [] 0 = Some y) \<longleftrightarrow>
   (\<exists>n. rx s (pos s + n) = Some 0xAA \<or> 10 \<le> timeouts (rx s) (pos s) (pos s + n))"
proof
  assume "\<exists>y. read_header s [] 0 = Some y"
  then obtain s' byte' retries' where r: "read_header s [] 0 = Some (s', byte', retries')"
    by auto
  from read_header_post [OF r]
  have p: "pos s \<le> pos s'" "retries' = timeouts (rx s) (pos s) (pos s')"
    "byte' = [0xAA] \<or> 10 \<le> retries'"
    "byte' = [0xAA] \<Longrightarrow> pos s < pos s' \<and> rx s (pos s' - 1) = Some 0xAA"
    by (auto simp: scan_post_def)
  show "\<exists>n. rx s (pos s + n) = Some 0xAA \<or> 10 \<le> timeouts (rx s) (pos s) (pos s + n)"
  proof (cases "byte' = [0xAA]")
    case True
    with p(4) have "rx s (pos s + (pos s' - 1 - pos s)) = Some 0xAA" by simp
    then show ?thesis by blast
  next
    case False
    with p have "10 \<le> timeouts (rx s) (pos s) (pos s + (pos s' - pos s))" by simp
    then show ?thesis by blast
  qed
next
  assume "\<exists>n. rx s (pos s + n) = Some 0xAA \<or> 10 \<le> timeouts (rx s) (pos s) (pos s + n)"
  then obtain n where
    "rx s (pos s + n) = Some 0xAA \<or> 10 \<le> 0 + timeouts (rx s) (pos s) (pos s + n)"
    by auto
  then show "\<exists>y. read_header s [] 0 = Some y" by (rule read_header_terminates)
qed

lemma read_header_chatter_diverges:
  assumes "b \<noteq> 0xAA"
  shows "read_header (port (chatter b)) [] 0 = None"
proof (cases "read_header (port (chatter b)) [] 0")
  case None
  then show ?thesis .
next
  case (Some y)
  obtain s' byte' retries' where y: "y = (s', byte', retries')" by (cases y) auto
  from read_header_post [OF Some] y assms show ?thesis
    by (auto simp: scan_post_def port_def chatter_def)
qed

text \<open>
  C4, as the claim states it: at most 10 read attempts, and termination on every input
  stream.  On a line that delivers eleven bytes \<open>00\<close> and then \<open>AA\<close> the loop makes 12
  reads and finds the header; on a line that delivers \<open>00\<close> for ever it does not return.
\<close>

theorem read_response_attempts_counterexample:
  "read_header (port (line ([Some 0, Some 0, Some 0, Some 0, Some 0, Some 0, Some 0, Some 0, Some 0, Some 0, Some 0, Some 0xAA]))) [] 0 =
     Some (port (line ([Some 0, Some 0, Some 0, Some 0, Some 0, Some 0, Some 0, Some 0, Some 0, Some 0, Some 0, Some 0xAA]))\<lparr>pos := 12\<rparr>, [0xAA], 0) \<and>
   read_response (port (chatter 0)) = None"
proof
  show "read_header (port (line ([Some 0, Some 0, Some 0, Some 0, Some 0, Some 0, Some 0, Some 0, Some 0, Some 0, Some 0, Some 0xAA]))) [] 0 =
     Some (port (line ([Some 0, Some 0, Some 0, Some 0, Some 0, Some 0, Some 0, Some 0, Some 0, Some 0, Some 0, Some 0xAA]))\<lparr>pos := 12\<rparr>, [0xAA], 0)"
    by (simp add: read_header_step read_header_stop port_def line_def)
  have "read_header (port (chatter 0)) [] 0 = None"
    by (rule read_header_chatter_diverges) simp
  then show "read_response (port (chatter 0)) = None"
    by (simp add: read_response_def)
qed

text \<open>
  C4 as amended: the header loop makes at most 10 reads that give no byte (bytes other
  than \<open>AA\<close> are skipped and not counted); it ends with \<open>NoResponse\<close> exactly when the
  tenth such read comes before any \<open>AA\<close>; and \<^verbatim>\<open>read_response\<close> returns exactly on the
  lines where an \<open>AA\<close> or a tenth empty read eventually comes.
\<close>

theorem read_response_timeout_bound:
  "(read_header s [] 0 = Some (s1, byte, retries) \<longrightarrow>
      s1 = s\<lparr>pos := pos s1\<rparr> \<and> pos s \<le> pos s1 \<and>
      retries = timeouts (rx s) (pos s) (pos s1) \<and> retries \<le> 10 \<and>
      (read_response s = Some (Inl NoResponse, s1) \<longleftrightarrow> byte \<noteq> [0xAA]) \<and>
      (byte \<noteq> [0xAA] \<longleftrightarrow>
         retries = 10 \<and> (\<forall>i. pos s \<le> i \<and> i < pos s1 \<longrightarrow> rx s i \<noteq> Some 0xAA))) \<and>
   ((\<exists>y. read_response s = Some y) \<longleftrightarrow>
      (\<exists>n. rx s (pos s + n) = Some 0xAA \<or> 10 \<le> timeouts (rx s) (pos s) (pos s + n)))"
proof (intro conjI impI)
  assume r: "read_header s [] 0 = Some (s1, byte, retries)"
  from read_header_post [OF r]
  have p: "s1 = s\<lparr>pos := pos s1\<rparr>" "pos s \<le> pos s1"
    "retries = timeouts (rx s) (pos s) (pos s1)" "retries \<le> 10"
    "byte = [0xAA] \<or> 10 \<le> retries"
    "byte = [0xAA] \<Longrightarrow> pos s < pos s1 \<and> rx s (pos s1 - 1) = Some 0xAA"
    "byte \<noteq> [0xAA] \<Longrightarrow> \<forall>i. pos s \<le> i \<and> i < pos s1 \<longrightarrow> rx s i \<noteq> Some 0xAA"
    by (auto simp: scan_post_def)
  show "s1 = s\<lparr>pos := pos s1\<rparr>" by (rule p(1))
  show "pos s \<le> pos s1" by (rule p(2))
  show "retries = timeouts (rx s) (pos s) (pos s1)" by (rule p(3))
  show "retries \<le> 10" by (rule p(4))
  show "read_response s = Some (Inl NoResponse, s1) \<longleftrightarrow> byte \<noteq> [0xAA]"
    by (rule read_response_NoResponse [OF r])
  show "byte \<noteq> [0xAA] \<longleftrightarrow>
      retries = 10 \<and> (\<forall>i. pos s \<le> i \<and> i < pos s1 \<longrightarrow> rx s i \<noteq> Some 0xAA)"
  proof
    assume "byte \<noteq> [0xAA]"
    then show "retries = 10 \<and> (\<forall>i. pos s \<le> i \<and> i < pos s1 \<longrightarrow> rx s i \<noteq> Some 0xAA)"
      using p(4,5,7) by auto
  next
    assume a: "retries = 10 \<and> (\<forall>i. pos s \<le> i \<and> i < pos s1 \<longrightarrow> rx s i \<noteq> Some 0xAA)"
    show "byte \<noteq> [0xAA]"
    proof
      assume "byte = [0xAA]"
      from p(6) [OF this] have "pos s < pos s1" "rx s (pos s1 - 1) = Some 0xAA" by simp_all
      moreover have "pos s \<le> pos s1 - 1 \<and> pos s1 - 1 < pos s1" using \<open>pos s < pos s1\<close> by simp
      ultimately show False using a by blast
    qed
  qed
next
  show "(\<exists>y. read_response s = Some y) \<longleftrightarrow>
      (\<exists>n. rx s (pos s + n) = Some 0xAA \<or> 10 \<le> timeouts (rx s) (pos s) (pos s + n))"
    by (simp only: read_response_returns_iff read_header_returns_iff)
qed

theorem read_response_timeout_bound_witness:
  "read_header (port (line [Some 1, None, Some 2])) [] 0 =
     Some (port (line [Some 1, None, Some 2])\<lparr>pos := 12\<rparr>, [], 10) \<and>
   timeouts (line [Some 1, None, Some 2]) 0 12 = 10 \<and>
   read_response (port (line [Some 1, None, Some 2])) =
     Some (Inl NoResponse, port (line [Some 1, None, Some 2])\<lparr>pos := 12\<rparr>)"
proof -
  let ?s = "port (line [Some 1, None, Some 2])"
  have h: "read_header ?s [] 0 = Some (?s\<lparr>pos := 12\<rparr>, [], 10)"
    by (simp add: read_header_step read_header_stop port_def line_def)
  from read_response_timeout_bound [of ?s "?s\<lparr>pos := 12\<rparr>" "[]" 10] h
  have "10 = timeouts (rx ?s) (pos ?s) (pos (?s\<lparr>pos := 12\<rparr>))"
    and "read_response ?s = Some (Inl NoResponse, ?s\<lparr>pos := 12\<rparr>)"
    by simp_all
  then show ?thesis using h by (simp add: port_def)
qed

subsection \<open>Properties of the data query\<close>

lemma construct_query_frame: "fst (construct_command CMD_QUERY_DATA None) = Inr query_frame"
  by (simp add: construct_command_def to_bytes_def byte_values_def CMD_QUERY_DATA_def
      query_frame_def eval_nat_numeral)

lemma cmd_query_data_eq:
  "cmd_query_data s =
     (case read_response (ser_write query_frame s) of
        None \<Rightarrow> None
      | Some (Inl e, s') \<Rightarrow> Some (Inl e, s')
      | Some (Inr d, s') \<Rightarrow> Some (Inr (cmd_query_data_decode d), s'))"
  by (simp add: cmd_query_data_def construct_query_frame)

lemma ser_read_numeral:
  "ser_read (numeral k) s =
     (case rx s (pos s) of
        None \<Rightarrow> ([], s\<lparr>pos := pos s + 1\<rparr>)
      | Some b \<Rightarrow>
          (let (bs, s') = ser_read (pred_numeral k) (s\<lparr>pos := pos s + 1\<rparr>) in (b # bs, s')))"
  by (simp add: numeral_eq_Suc)

lemma ser_write_fields [simp]:
  "rx (ser_write b s) = rx s" "pos (ser_write b s) = pos s" "tx (ser_write b s) = tx s @ [b]"
  by (simp_all add: ser_write_def)

text \<open>
  C2: the buffer \<open>AA C0 7B 00 C8 01 00 00 00 AB\<close> decodes to 12.3 and 45.6; every
  10-byte frame with header \<open>AA\<close>, type \<open>C0\<close> and terminator \<open>AB\<close> decodes to
  \<open>(d[2] + d[3] * 256) / 10\<close> and \<open>(d[4] + d[5] * 256) / 10\<close>, and that is what the query
  returns when the reader delivers the frame.
\<close>

theorem cmd_query_data_values:
  "cmd_query_data_decode
     [0xAA, 0xC0, word_of_int (123 mod 256), word_of_int (123 div 256),
      word_of_int (456 mod 256), word_of_int (456 div 256), 0, 0, 0, 0xAB] =
     (Some 12.3, Some 45.6) \<and>
   (length d = 10 \<and> d ! 0 = 0xAA \<and> d ! 1 = 0xC0 \<and> d ! 9 = 0xAB \<longrightarrow>
      cmd_query_data_decode d =
        (Some (real_of_int (uint (d ! 2) + uint (d ! 3) * 256) / 10),
         Some (real_of_int (uint (d ! 4) + uint (d ! 5) * 256) / 10)) \<and>
      (read_response (ser_write query_frame s) = Some (Inr d, s') \<longrightarrow>
         cmd_query_data s =
           Some (Inr (Some (real_of_int (uint (d ! 2) + uint (d ! 3) * 256) / 10),
                      Some (real_of_int (uint (d ! 4) + uint (d ! 5) * 256) / 10)), s')))"
proof (intro conjI impI)
  show "cmd_query_data_decode
     [0xAA, 0xC0, word_of_int (123 mod 256), word_of_int (123 div 256),
      word_of_int (456 mod 256), word_of_int (456 div 256), 0, 0, 0, 0xAB] =
     (Some 12.3, Some 45.6)"
    by (simp add: cmd_query_data_decode_def)
next
  assume "length d = 10 \<and> d ! 0 = 0xAA \<and> d ! 1 = 0xC0 \<and> d ! 9 = 0xAB"
  then show v: "cmd_query_data_decode d =
        (Some (real_of_int (uint (d ! 2) + uint (d ! 3) * 256) / 10),
         Some (real_of_int (uint (d ! 4) + uint (d ! 5) * 256) / 10))"
    by (simp add: cmd_query_data_decode_def Let_def)
  assume "read_response (ser_write query_frame s) = Some (Inr d, s')"
  then show "cmd_query_data s =
      Some (Inr (Some (real_of_int (uint (d ! 2) + uint (d ! 3) * 256) / 10),
                 Some (real_of_int (uint (d ! 4) + uint (d ! 5) * 256) / 10)), s')"
    using v by (simp add: cmd_query_data_eq)
qed

lemma read_response_reading_line:
  "read_response (ser_write query_frame (port (line
      [Some 0xAA, Some 0xC0, Some 123, Some 0, Some 200, Some 1, Some 0, Some 0, Some 0,
       Some 0xAB]))) =
   Some (Inr [0xAA, 0xC0, 123, 0, 200, 1, 0, 0, 0, 0xAB],
     \<lparr>rx = line [Some 0xAA, Some 0xC0, Some 123, Some 0, Some 200, Some 1, Some 0, Some 0,
        Some 0, Some 0xAB], pos = 10, tx = [query_frame]\<rparr>)"
  by (simp add: read_response_def read_header_step read_header_stop ser_read_numeral
      port_def line_def ser_write_def)

theorem cmd_query_data_values_witness:
  "cmd_query_data (port (line
      [Some 0xAA, Some 0xC0, Some 123, Some 0, Some 200, Some 1, Some 0, Some 0, Some 0,
       Some 0xAB])) =
   Some (Inr (Some 12.3, Some 45.6),
     \<lparr>rx = line [Some 0xAA, Some 0xC0, Some 123, Some 0, Some 200, Some 1, Some 0, Some 0,
        Some 0, Some 0xAB], pos = 10, tx = [query_frame]\<rparr>)"
  using read_response_reading_line
    cmd_query_data_values [of "[0xAA, 0xC0, 123, 0, 200, 1, 0, 0, 0, 0xAB]"
      "port (line [Some 0xAA, Some 0xC0, Some 123, Some 0, Some 200, Some 1, Some 0, Some 0,
         Some 0, Some 0xAB])"
      "\<lparr>rx = line [Some 0xAA, Some 0xC0, Some 123, Some 0, Some 200, Some 1, Some 0, Some 0,
         Some 0, Some 0xAB], pos = 10, tx = [query_frame]\<rparr>"]
  by simp

text \<open>
  C3: a 10-byte frame whose header is not \<open>AA\<close>, or whose type is not \<open>C0\<close>, or whose
  terminator is not \<open>AB\<close>, gives \<^verbatim>\<open>(None, None)\<close>; the query that reads it returns this
  value and no error.
\<close>

theorem cmd_query_data_malformed:
  "length d = 10 \<and> (d ! 0 \<noteq> 0xAA \<or> d ! 1 \<noteq> 0xC0 \<or> d ! 9 \<noteq> 0xAB) \<longrightarrow>
     cmd_query_data_decode d = (None, None) \<and>
     (read_response (ser_write query_frame s) = Some (Inr d, s') \<longrightarrow>
        cmd_query_data s = Some (Inr (None, None), s'))"
  by (auto simp: cmd_query_data_decode_def cmd_query_data_eq)

lemma read_response_mistimed_line:
  "read_response (ser_write query_frame (port (line
      [Some 0xAA, Some 0xC5, Some 6, Some 0, Some 0, Some 0, Some 1, Some 2, Some 9,
       Some 0xAB]))) =
   Some (Inr [0xAA, 0xC5, 6, 0, 0, 0, 1, 2, 9, 0xAB],
     \<lparr>rx = line [Some 0xAA, Some 0xC5, Some 6, Some 0, Some 0, Some 0, Some 1, Some 2,
        Some 9, Some 0xAB], pos = 10, tx = [query_frame]\<rparr>)"
  by (simp add: read_response_def read_header_step read_header_stop ser_read_numeral
      port_def line_def ser_write_def)

theorem cmd_query_data_malformed_witness:
  "cmd_query_data_decode [0xAA, 0xC5, 6, 0, 0, 0, 1, 2, 9, 0xAB] = (None, None) \<and>
   cmd_query_data (port (line
      [Some 0xAA, Some 0xC5, Some 6, Some 0, Some 0, Some 0, Some 1, Some 2, Some 9,
       Some 0xAB])) =
   Some (Inr (None, None),
     \<lparr>rx = line [Some 0xAA, Some 0xC5, Some 6, Some 0, Some 0, Some 0, Some 1, Some 2,
        Some 9, Some 0xAB], pos = 10, tx = [query_frame]\<rparr>)"
  using read_response_mistimed_line
    cmd_query_data_malformed [of "[0xAA, 0xC5, 6, 0, 0, 0, 1, 2, 9, 0xAB]"
      "port (line [Some 0xAA, Some 0xC5, Some 6, Some 0, Some 0, Some 0, Some 1, Some 2,
         Some 9, Some 0xAB])"
      "\<lparr>rx = line [Some 0xAA, Some 0xC5, Some 6, Some 0, Some 0, Some 0, Some 1, Some 2,
         Some 9, Some 0xAB], pos = 10, tx = [query_frame]\<rparr>"]
  by simp

subsection \<open>Properties of the snapshot writer\<close>

lemma length_json_chunks [simp]: "length (json_chunks ts pm25 pm10) = 13"
  by (simp add: json_chunks_def)

lemma os_write_present:
  "files f tmp = Some \<lparr>content = w, mode = m\<rparr> \<Longrightarrow>
   os_write tmp c f = f\<lparr>files := (files f)(tmp \<mapsto> \<lparr>content = w @ [c], mode = m\<rparr>)\<rparr>"
  by (simp add: os_write_def)

text \<open>The file systems that \<^verbatim>\<open>json.dump\<close> goes through hold the first, the first two,
  \<dots> chunks in the temporary file; all of them are written exactly when no write fails.\<close>

lemma json_dump_prefix:
  assumes "files f tmp = Some \<lparr>content = w, mode = m\<rparr>"
    and "json_dump deny tmp f k cs = (tr, ok)"
  shows "\<exists>n\<le>length cs.
     tr = map (\<lambda>j. f\<lparr>files := (files f)(tmp \<mapsto> \<lparr>content = w @ take j cs, mode = m\<rparr>)\<rparr>)
            [1..<Suc n] \<and>
     (ok \<longleftrightarrow> n = length cs)"
  using assms
proof (induction cs arbitrary: f k w tr ok)
  case Nil
  then show ?case by simp
next
  case (Cons c cs)
  let ?f' = "f\<lparr>files := (files f)(tmp \<mapsto> \<lparr>content = w @ [c], mode = m\<rparr>)\<rparr>"
  let ?g = "\<lambda>j. f\<lparr>files := (files f)(tmp \<mapsto>
                 \<lparr>content = w @ take j (c # cs), mode = m\<rparr>)\<rparr>"
  let ?h = "\<lambda>j. ?f'\<lparr>files := (files ?f')(tmp \<mapsto>
                 \<lparr>content = (w @ [c]) @ take j cs, mode = m\<rparr>)\<rparr>"
  have w: "os_write tmp c f = ?f'" using Cons.prems(1) by (rule os_write_present)
  show ?case
  proof (cases "deny (Write k)")
    case True
    with Cons.prems(2) have "tr = []" "\<not> ok" by simp_all
    then have "tr = map ?g [1..<Suc 0] \<and> (ok \<longleftrightarrow> 0 = length (c # cs))" by simp
    then show ?thesis by blast
  next
    case False
    obtain tr' ok' where r: "json_dump deny tmp ?f' (Suc k) cs = (tr', ok')"
      by (cases "json_dump deny tmp ?f' (Suc k) cs") auto
    from False Cons.prems(2) w r have t: "tr = ?f' # tr'" "ok = ok'"
      by (simp_all add: Let_def)
    have "files ?f' tmp = Some \<lparr>content = w @ [c], mode = m\<rparr>" by simp
    from Cons.IH [OF this r] obtain n where n: "n \<le> length cs"
      "tr' = map ?h [1..<Suc n]" "ok' \<longleftrightarrow> n = length cs"
      by blast
    have h: "?h j = ?g (Suc j)" for j by simp
    have idx: "[1..<Suc (Suc n)] = 1 # map Suc [1..<Suc n]"
      by (simp add: upt_conv_Cons map_Suc_upt del: upt_Suc)
    have "map ?g [1..<Suc (Suc n)] = ?g 1 # map (\<lambda>j. ?g (Suc j)) [1..<Suc n]"
      by (simp only: idx list.map map_map comp_def)
    also have "\<dots> = ?f' # map ?h [1..<Suc n]"
      by (simp only: h) simp
    finally have "tr = map ?g [1..<Suc (Suc n)]" using t(1) n(2) by simp
    moreover have "Suc n \<le> length (c # cs)" using n(1) by simp
    moreover have "ok \<longleftrightarrow> Suc n = length (c # cs)" using t(2) n(3) by simp
    ultimately show ?thesis by blast
  qed
qed

lemma json_dump_ok: "\<forall>c. \<not> deny c \<Longrightarrow> snd (json_dump deny tmp f k cs)"
proof (induction cs arbitrary: f k)
  case Nil
  then show ?case by simp
next
  case (Cons c cs)
  obtain tr ok where r: "json_dump deny tmp (os_write tmp c f) (Suc k) cs = (tr, ok)"
    by (cases "json_dump deny tmp (os_write tmp c f) (Suc k) cs") auto
  have "snd (json_dump deny tmp (os_write tmp c f) (Suc k) cs)"
    by (rule Cons.IH [OF Cons.prems])
  then have ok using r by simp
  moreover have "\<not> deny (Write k)" using Cons.prems by simp
  ultimately show ?case by (simp add: r Let_def)
qed

lemma write_json_trace_tmp_fresh:
  assumes "files f0 dest \<noteq> None \<or> snd dest \<notin> set names"
    and "find (\<lambda>n. files f0 (fst dest, n) = None) names = Some n"
  shows "(fst dest, n) \<noteq> dest"
proof
  assume e: "(fst dest, n) = dest"
  from assms(2) have "files f0 (fst dest, n) = None" "n \<in> set names"
    by (auto simp: find_Some_iff)
  moreover have "snd dest = n" using e by (metis snd_conv)
  ultimately show False using e assms(1) by auto
qed

text \<open>The trace in terms of the number \<open>n\<close> of chunks written before a write failed.\<close>

lemma write_json_trace_shape:
  assumes "fst dest \<noteq> []" and "\<not> deny Makedirs" and "\<not> deny Mkstemp"
    and "find (\<lambda>n. files f0 (fst dest, n) = None) names = Some nm"
    and neq: "(fst dest, nm) \<noteq> dest"
  shows "\<exists>n\<le>13.
    write_json_trace deny names dest f0 ts pm25 pm10 =
      (let tmp = (fst dest, nm);
           f1 = f0\<lparr>dirs := insert (fst dest) (dirs f0)\<rparr>
       in f1 #
          f1\<lparr>files := (files f1)(tmp \<mapsto> \<lparr>content = [], mode = 0x180\<rparr>)\<rparr> #
          map (\<lambda>j. f1\<lparr>files := (files f1)(tmp \<mapsto>
                      \<lparr>content = take j (json_chunks ts pm25 pm10), mode = 0x180\<rparr>)\<rparr>)
            [1..<Suc n] @
          (if n \<noteq> 13 \<or> deny Chmod then []
           else f1\<lparr>files := (files f1)(tmp \<mapsto> snapshot ts pm25 pm10)\<rparr> #
                (if deny Replace then []
                 else [f1\<lparr>files := ((files f1)(dest \<mapsto> snapshot ts pm25 pm10))(tmp := None)\<rparr>])))"
proof -
  let ?tmp = "(fst dest, nm)"
  let ?f1 = "f0\<lparr>dirs := insert (fst dest) (dirs f0)\<rparr>"
  let ?f2 = "?f1\<lparr>files := (files ?f1)(?tmp \<mapsto> \<lparr>content = [], mode = 0x180\<rparr>)\<rparr>"
  let ?cs = "json_chunks ts pm25 pm10"
  let ?F = "\<lambda>j. ?f1\<lparr>files := (files ?f1)(?tmp \<mapsto> \<lparr>content = take j ?cs, mode = 0x180\<rparr>)\<rparr>"
  obtain tr ok where d: "json_dump deny ?tmp ?f2 0 ?cs = (tr, ok)"
    by (cases "json_dump deny ?tmp ?f2 0 ?cs") auto
  have "files ?f2 ?tmp = Some \<lparr>content = [], mode = 0x180\<rparr>" by simp
  from json_dump_prefix [OF this d] obtain n where n: "n \<le> length ?cs"
    "tr = map (\<lambda>j. ?f2\<lparr>files := (files ?f2)(?tmp \<mapsto>
              \<lparr>content = [] @ take j ?cs, mode = 0x180\<rparr>)\<rparr>) [1..<Suc n]"
    "ok \<longleftrightarrow> n = length ?cs"
    by blast
  have tr: "tr = map ?F [1..<Suc n]" using n(2) by simp
  have n13: "n \<le> 13" "ok \<longleftrightarrow> n = 13" using n(1,3) by simp_all
  have l: "last (?f2 # tr) = ?F n"
  proof (cases n)
    case 0
    then show ?thesis using tr by simp
  next
    case (Suc n')
    then show ?thesis using tr by (simp add: last_map del: upt_Suc)
  qed
  have f4: "os_chmod ?tmp 0x1A4 (?F 13) =
      ?f1\<lparr>files := (files ?f1)(?tmp \<mapsto> snapshot ts pm25 pm10)\<rparr>"
    by (simp add: os_chmod_def snapshot_def)
  have f5: "os_replace ?tmp dest (?f1\<lparr>files := (files ?f1)(?tmp \<mapsto> snapshot ts pm25 pm10)\<rparr>) =
      ?f1\<lparr>files := ((files ?f1)(dest \<mapsto> snapshot ts pm25 pm10))(?tmp := None)\<rparr>"
    using neq by (simp add: os_replace_def)
  have fnd: "find (\<lambda>n. files ?f1 (fst dest, n) = None) names = Some nm"
    using assms(4) by simp
  have mk: "os_makedirs (fst dest) f0 = ?f1" "os_create ?tmp ?f1 = ?f2"
    by (simp_all add: os_makedirs_def os_create_def)
  have "write_json_trace deny names dest f0 ts pm25 pm10 =
      ?f1 # ?f2 # tr @
        (if \<not> ok \<or> deny Chmod then []
         else os_chmod ?tmp 0x1A4 (last (?f2 # tr)) #
           (if deny Replace then []
            else [os_replace ?tmp dest (os_chmod ?tmp 0x1A4 (last (?f2 # tr)))]))"
    unfolding write_json_trace_def Let_def
    by (simp only: assms(1-3) fnd mk d if_False simp_thms option.case prod.case append.simps)
  also have "\<dots> = ?f1 # ?f2 # tr @
        (if n \<noteq> 13 \<or> deny Chmod then []
         else ?f1\<lparr>files := (files ?f1)(?tmp \<mapsto> snapshot ts pm25 pm10)\<rparr> #
           (if deny Replace then []
            else [?f1\<lparr>files := ((files ?f1)(dest \<mapsto> snapshot ts pm25 pm10))(?tmp := None)\<rparr>]))"
  proof (cases "n = 13")
    case True
    have l13: "last (?f2 # tr) = ?F 13" using l True by simp
    have c: "ok = True" "(n \<noteq> 13) = False" using n13(2) True by simp_all
    show ?thesis by (simp only: c l13 f4 f5 simp_thms)
  next
    case False
    have c: "ok = False" "(n \<noteq> 13) = True" using n13(2) False by simp_all
    show ?thesis by (simp only: c simp_thms if_True)
  qed
  finally have "write_json_trace deny names dest f0 ts pm25 pm10 =
      ?f1 # ?f2 # map ?F [1..<Suc n] @
        (if n \<noteq> 13 \<or> deny Chmod then []
         else ?f1\<lparr>files := (files ?f1)(?tmp \<mapsto> snapshot ts pm25 pm10)\<rparr> #
           (if deny Replace then []
            else [?f1\<lparr>files := ((files ?f1)(dest \<mapsto> snapshot ts pm25 pm10))(?tmp := None)\<rparr>]))"
    by (simp only: tr)
  then have "n \<le> 13 \<and> write_json_trace deny names dest f0 ts pm25 pm10 =
      (let tmp = ?tmp; f1 = ?f1
       in f1 #
          f1\<lparr>files := (files f1)(tmp \<mapsto> \<lparr>content = [], mode = 0x180\<rparr>)\<rparr> #
          map (\<lambda>j. f1\<lparr>files := (files f1)(tmp \<mapsto>
                      \<lparr>content = take j (json_chunks ts pm25 pm10), mode = 0x180\<rparr>)\<rparr>)
            [1..<Suc n] @
          (if n \<noteq> 13 \<or> deny Chmod then []
           else f1\<lparr>files := (files f1)(tmp \<mapsto> snapshot ts pm25 pm10)\<rparr> #
                (if deny Replace then []
                 else [f1\<lparr>files := ((files f1)(dest \<mapsto> snapshot ts pm25 pm10))(tmp := None)\<rparr>])))"
    using n13(1) by (simp only: Let_def simp_thms)
  then show ?thesis by blast
qed

lemma write_json_trace_dest:
  assumes fresh: "files f0 dest \<noteq> None \<or> snd dest \<notin> set names"
    and g: "g \<in> set (f0 # write_json_trace deny names dest f0 ts pm25 pm10)"
  shows "files g dest = files f0 dest \<or> files g dest = Some (snapshot ts pm25 pm10)"
proof (cases "fst dest = [] \<or> deny Makedirs")
  case True
  with g show ?thesis by (simp add: write_json_trace_def)
next
  case False
  let ?f1 = "f0\<lparr>dirs := insert (fst dest) (dirs f0)\<rparr>"
  show ?thesis
  proof (cases "find (\<lambda>n. files f0 (fst dest, n) = None) names")
    case None
    with False g show ?thesis
      by (auto simp: write_json_trace_def Let_def os_makedirs_def)
  next
    case (Some nm)
    let ?tmp = "(fst dest, nm)"
    have neq: "?tmp \<noteq> dest" using fresh Some by (rule write_json_trace_tmp_fresh)
    show ?thesis
    proof (cases "deny Mkstemp")
      case True
      with False Some g show ?thesis
        by (auto simp: write_json_trace_def Let_def os_makedirs_def)
    next
      case mk: False
      from write_json_trace_shape [of dest deny f0 names nm ts pm25 pm10] False mk Some neq
      obtain n where t: "write_json_trace deny names dest f0 ts pm25 pm10 =
          ?f1 # ?f1\<lparr>files := (files ?f1)(?tmp \<mapsto> \<lparr>content = [], mode = 0x180\<rparr>)\<rparr> #
          map (\<lambda>j. ?f1\<lparr>files := (files ?f1)(?tmp \<mapsto>
                      \<lparr>content = take j (json_chunks ts pm25 pm10), mode = 0x180\<rparr>)\<rparr>)
            [1..<Suc n] @
          (if n \<noteq> 13 \<or> deny Chmod then []
           else ?f1\<lparr>files := (files ?f1)(?tmp \<mapsto> snapshot ts pm25 pm10)\<rparr> #
                (if deny Replace then []
                 else [?f1\<lparr>files := ((files ?f1)(dest \<mapsto> snapshot ts pm25 pm10))
                                     (?tmp := None)\<rparr>]))"
        by (auto simp: Let_def)
      from g neq show ?thesis
        unfolding t by (auto split: if_splits)
    qed
  qed
qed

lemma write_json_trace_all:
  assumes "fst dest \<noteq> []" and "\<forall>c. \<not> deny c"
    and "find (\<lambda>n. files f0 (fst dest, n) = None) names = Some n"
    and neq: "(fst dest, n) \<noteq> dest"
  shows "write_json_trace deny names dest f0 ts pm25 pm10 =
     (let tmp = (fst dest, n);
          f1 = f0\<lparr>dirs := insert (fst dest) (dirs f0)\<rparr>
      in f1 #
         f1\<lparr>files := (files f1)(tmp \<mapsto> \<lparr>content = [], mode = 0x180\<rparr>)\<rparr> #
         map (\<lambda>j. f1\<lparr>files := (files f1)(tmp \<mapsto>
                     \<lparr>content = take j (json_chunks ts pm25 pm10), mode = 0x180\<rparr>)\<rparr>)
           [1..<Suc (length (json_chunks ts pm25 pm10))] @
         [f1\<lparr>files := (files f1)(tmp \<mapsto> snapshot ts pm25 pm10)\<rparr>,
          f1\<lparr>files := ((files f1)(dest \<mapsto> snapshot ts pm25 pm10))(tmp := None)\<rparr>])"
proof -
  let ?tmp = "(fst dest, n)"
  let ?f1 = "f0\<lparr>dirs := insert (fst dest) (dirs f0)\<rparr>"
  let ?f2 = "?f1\<lparr>files := (files ?f1)(?tmp \<mapsto> \<lparr>content = [], mode = 0x180\<rparr>)\<rparr>"
  let ?cs = "json_chunks ts pm25 pm10"
  let ?F = "\<lambda>j. ?f1\<lparr>files := (files ?f1)(?tmp \<mapsto> \<lparr>content = take j ?cs, mode = 0x180\<rparr>)\<rparr>"
  have nd: "\<not> deny Makedirs" "\<not> deny Mkstemp" "\<not> deny Chmod" "\<not> deny Replace"
    using assms(2) by simp_all
  obtain tr ok where d: "json_dump deny ?tmp ?f2 0 ?cs = (tr, ok)"
    by (cases "json_dump deny ?tmp ?f2 0 ?cs") auto
  have ok: ok using json_dump_ok [OF assms(2), of ?tmp ?f2 0 ?cs] d by simp
  have "files ?f2 ?tmp = Some \<lparr>content = [], mode = 0x180\<rparr>" by simp
  from json_dump_prefix [OF this d] obtain m where m:
    "tr = map (\<lambda>j. ?f2\<lparr>files := (files ?f2)(?tmp \<mapsto>
              \<lparr>content = [] @ take j ?cs, mode = 0x180\<rparr>)\<rparr>) [1..<Suc m]"
    "ok \<longleftrightarrow> m = length ?cs"
    by blast
  have "m = length ?cs" using m(2) ok by simp
  then have tr: "tr = map ?F [1..<Suc (length ?cs)]"
    using m(1) by (simp del: upt_Suc)
  have l: "last (?f2 # tr) = ?F 13"
    unfolding tr by (simp add: last_map del: upt_Suc)
  have f4: "os_chmod ?tmp 0x1A4 (?F 13) =
      ?f1\<lparr>files := (files ?f1)(?tmp \<mapsto> snapshot ts pm25 pm10)\<rparr>"
    by (simp add: os_chmod_def snapshot_def)
  have f5: "os_replace ?tmp dest (?f1\<lparr>files := (files ?f1)(?tmp \<mapsto> snapshot ts pm25 pm10)\<rparr>) =
      ?f1\<lparr>files := ((files ?f1)(dest \<mapsto> snapshot ts pm25 pm10))(?tmp := None)\<rparr>"
    using neq by (simp add: os_replace_def)
  have fnd: "find (\<lambda>n. files ?f1 (fst dest, n) = None) names = Some n"
    using assms(3) by simp
  have mk: "os_makedirs (fst dest) f0 = ?f1" "os_create ?tmp ?f1 = ?f2"
    by (simp_all add: os_makedirs_def os_create_def)
  have "write_json_trace deny names dest f0 ts pm25 pm10 =
      ?f1 # ?f2 # tr @
        [os_chmod ?tmp 0x1A4 (last (?f2 # tr)),
         os_replace ?tmp dest (os_chmod ?tmp 0x1A4 (last (?f2 # tr)))]"
    unfolding write_json_trace_def Let_def
    using ok
    by (simp only: assms(1) nd fnd mk d if_False simp_thms option.case prod.case append.simps)
  also have "\<dots> = ?f1 # ?f2 # tr @
        [?f1\<lparr>files := (files ?f1)(?tmp \<mapsto> snapshot ts pm25 pm10)\<rparr>,
         ?f1\<lparr>files := ((files ?f1)(dest \<mapsto> snapshot ts pm25 pm10))(?tmp := None)\<rparr>]"
    by (simp only: l f4 f5)
  finally show ?thesis
    by (simp only: tr Let_def)
qed

text \<open>
  C9: when no call fails, \<^verbatim>\<open>write_json\<close> creates the directory, creates an empty
  temporary file in the directory of the destination, writes the chunks of the JSON
  object to it one after the other, sets its permission bits, and replaces the
  destination by it, in this order.  Whatever fails, in every file system that exists
  in between the destination path has its prior state or the complete new object
  with the new permissions, provided the temporary file is not the destination itself
  (the destination exists, or its name is not one that \<^verbatim>\<open>tempfile\<close> proposes).  Each
  call to the operating system is one step; a reader samples between steps.
\<close>

theorem write_json_atomic:
  "files f0 dest \<noteq> None \<or> snd dest \<notin> set names \<longrightarrow>
     (\<forall>g \<in> set (f0 # write_json_trace deny names dest f0 ts pm25 pm10).
        files g dest = files f0 dest \<or> files g dest = Some (snapshot ts pm25 pm10)) \<and>
     (fst dest \<noteq> [] \<and> (\<forall>c. \<not> deny c) \<and>
      find (\<lambda>n. files f0 (fst dest, n) = None) names = Some n \<longrightarrow>
        write_json_trace deny names dest f0 ts pm25 pm10 =
          (let tmp = (fst dest, n);
               f1 = f0\<lparr>dirs := insert (fst dest) (dirs f0)\<rparr>
           in f1 #
              f1\<lparr>files := (files f1)(tmp \<mapsto> \<lparr>content = [], mode = 0x180\<rparr>)\<rparr> #
              map (\<lambda>j. f1\<lparr>files := (files f1)(tmp \<mapsto>
                          \<lparr>content = take j (json_chunks ts pm25 pm10), mode = 0x180\<rparr>)\<rparr>)
                [1..<Suc (length (json_chunks ts pm25 pm10))] @
              [f1\<lparr>files := (files f1)(tmp \<mapsto> snapshot ts pm25 pm10)\<rparr>,
               f1\<lparr>files := ((files f1)(dest \<mapsto> snapshot ts pm25 pm10))(tmp := None)\<rparr>]))"
proof (intro conjI impI ballI)
  fix g
  assume "files f0 dest \<noteq> None \<or> snd dest \<notin> set names"
    and "g \<in> set (f0 # write_json_trace deny names dest f0 ts pm25 pm10)"
  then show "files g dest = files f0 dest \<or> files g dest = Some (snapshot ts pm25 pm10)"
    by (rule write_json_trace_dest)
next
  assume fresh: "files f0 dest \<noteq> None \<or> snd dest \<notin> set names"
    and a: "fst dest \<noteq> [] \<and> (\<forall>c. \<not> deny c) \<and>
      find (\<lambda>n. files f0 (fst dest, n) = None) names = Some n"
  from a have h: "fst dest \<noteq> []" "\<forall>c. \<not> deny c"
    "find (\<lambda>n. files f0 (fst dest, n) = None) names = Some n"
    by simp_all
  from fresh h(3) have "(fst dest, n) \<noteq> dest" by (rule write_json_trace_tmp_fresh)
  with h show "write_json_trace deny names dest f0 ts pm25 pm10 =
        (let tmp = (fst dest, n);
             f1 = f0\<lparr>dirs := insert (fst dest) (dirs f0)\<rparr>
         in f1 #
            f1\<lparr>files := (files f1)(tmp \<mapsto> \<lparr>content = [], mode = 0x180\<rparr>)\<rparr> #
            map (\<lambda>j. f1\<lparr>files := (files f1)(tmp \<mapsto>
                        \<lparr>content = take j (json_chunks ts pm25 pm10), mode = 0x180\<rparr>)\<rparr>)
              [1..<Suc (length (json_chunks ts pm25 pm10))] @
            [f1\<lparr>files := (files f1)(tmp \<mapsto> snapshot ts pm25 pm10)\<rparr>,
             f1\<lparr>files := ((files f1)(dest \<mapsto> snapshot ts pm25 pm10))(tmp := None)\<rparr>])"
    by (rule write_json_trace_all)
qed

theorem write_json_atomic_witness:
  "snd default_json_output \<notin> set [''tmpk3v9x_ab''] \<and>
   fst default_json_output \<noteq> [] \<and>
   find (\<lambda>n. files empty_fs (fst default_json_output, n) = None) [''tmpk3v9x_ab''] =
     Some ''tmpk3v9x_ab'' \<and>
   length (write_json_trace permissive [''tmpk3v9x_ab''] default_json_output empty_fs
             1700000080 12.3 45.6) = 17 \<and>
   files (write_json permissive [''tmpk3v9x_ab''] default_json_output empty_fs
            1700000080 12.3 45.6) default_json_output =
     Some (snapshot 1700000080 12.3 45.6) \<and>
   files (write_json permissive [''tmpk3v9x_ab''] default_json_output empty_fs
            1700000080 12.3 45.6) (fst default_json_output, ''tmpk3v9x_ab'') = None"
proof -
  have h: "fst default_json_output \<noteq> [] \<and> (\<forall>c. \<not> permissive c) \<and>
      find (\<lambda>n. files empty_fs (fst default_json_output, n) = None) [''tmpk3v9x_ab''] =
        Some ''tmpk3v9x_ab''"
    by (simp add: default_json_output_def permissive_def empty_fs_def)
  have n: "snd default_json_output \<notin> set [''tmpk3v9x_ab'']"
    by (simp add: default_json_output_def)
  from write_json_atomic [where ?f0.0 = empty_fs and dest = default_json_output
      and names = "[''tmpk3v9x_ab'']" and deny = permissive and ts = 1700000080
      and ?pm25.0 = "12.3" and ?pm10.0 = "45.6" and n = "''tmpk3v9x_ab''"] h n
  have t: "write_json_trace permissive [''tmpk3v9x_ab''] default_json_output empty_fs
      1700000080 12.3 45.6 =
        (let tmp = (fst default_json_output, ''tmpk3v9x_ab'');
             f1 = empty_fs\<lparr>dirs := insert (fst default_json_output) (dirs empty_fs)\<rparr>
         in f1 #
            f1\<lparr>files := (files f1)(tmp \<mapsto> \<lparr>content = [], mode = 0x180\<rparr>)\<rparr> #
            map (\<lambda>j. f1\<lparr>files := (files f1)(tmp \<mapsto>
                  \<lparr>content = take j (json_chunks 1700000080 12.3 45.6), mode = 0x180\<rparr>)\<rparr>)
              [1..<Suc (length (json_chunks 1700000080 12.3 45.6))] @
            [f1\<lparr>files := (files f1)(tmp \<mapsto> snapshot 1700000080 12.3 45.6)\<rparr>,
             f1\<lparr>files := ((files f1)(default_json_output \<mapsto> snapshot 1700000080 12.3 45.6))
                            (tmp := None)\<rparr>])"
    by blast
  show ?thesis
    unfolding write_json_def t
    using h n
    by (simp add: Let_def default_json_output_def del: upt_Suc)
qed

subsection \<open>Properties of the duty cycle\<close>

lemma sampling_loop_post:
  assumes "sampling_loop start_time w samples = Some y"
  shows "sampling_post start_time w samples y"
proof (rule sampling_loop.raw_induct [where P = sampling_post, OF _ assms])
  fix f start_time w samples y
  assume IH: "\<And>start_time w samples y.
      f start_time w samples = Some y \<Longrightarrow> sampling_post start_time w samples y"
    and body: "(let (now, w1) = time_time w in
      if now - start_time < real_of_int (read_period w) then
        (case cmd_query_data (ser w1) of
           None \<Rightarrow> None
         | Some (r, s') \<Rightarrow>
             f start_time (w1\<lparr>ser := s'\<rparr>)
               (case r of
                  Inr (Some pm25, Some pm10) \<Rightarrow> samples @ [(pm25, pm10)]
                | _ \<Rightarrow> samples))
      else Some (w1, samples)) = Some y"
  let ?w1 = "w\<lparr>ticks := ticks w + 1\<rparr>"
  show "sampling_post start_time w samples y"
  proof (cases "clock w (ticks w) - start_time < real_of_int (read_period w)")
    case False
    with body have "y = (?w1, samples)" by (simp add: time_time_def)
    with False show ?thesis by (simp add: sampling_post_def)
  next
    case True
    with body obtain r s' where
      q: "cmd_query_data (ser w) = Some (r, s')" and
      rec: "f start_time (?w1\<lparr>ser := s'\<rparr>)
             (case r of
                Inr (Some pm25, Some pm10) \<Rightarrow> samples @ [(pm25, pm10)]
              | _ \<Rightarrow> samples) = Some y"
      by (auto simp: time_time_def split: option.splits)
    let ?samples2 = "case r of
                Inr (Some pm25, Some pm10) \<Rightarrow> samples @ [(pm25, pm10)]
              | _ \<Rightarrow> samples"
    from IH [OF rec] have p: "sampling_post start_time (?w1\<lparr>ser := s'\<rparr>) ?samples2 y" .
    obtain w' samples' where y: "y = (w', samples')" by (cases y) auto
    have ex: "\<exists>new. ?samples2 = samples @ new"
      by (auto split: sum.splits option.splits prod.splits)
    have "w' = w\<lparr>ser := ser w', ticks := ticks w'\<rparr>"
      using p y by (simp add: sampling_post_def)
    moreover have "ticks w < ticks w'"
      using p y by (simp add: sampling_post_def)
    moreover have "\<not> clock w (ticks w' - 1) - start_time < real_of_int (read_period w)"
      using p y by (simp add: sampling_post_def)
    moreover have "\<exists>new. samples' = samples @ new"
      using p y ex by (auto simp: sampling_post_def)
    ultimately show ?thesis using y by (simp add: sampling_post_def)
  qed
qed

lemma read_phase_post:
  assumes "read_phase w = Some (w2, samples)"
  shows "w2 = w\<lparr>ser := ser w2, ticks := ticks w2\<rparr>"
proof -
  from assms have
    "sampling_loop (clock w (ticks w)) (w\<lparr>ticks := ticks w + 1\<rparr>) [] = Some (w2, samples)"
    by (simp add: read_phase_def time_time_def)
  from sampling_loop_post [OF this]
  have "w2 = w\<lparr>ticks := ticks w + 1\<rparr>\<lparr>ser := ser w2, ticks := ticks w2\<rparr>"
    by (simp add: sampling_post_def)
  then show ?thesis by simp
qed

lemma read_phase_frame:
  assumes "read_phase w = Some (w2, samples)"
  obtains s t where "w2 = w\<lparr>ser := s, ticks := t\<rparr>"
  using read_phase_post [OF assms] by blast

lemma publish_Nil [simp]: "publish w [] = w"
  by (simp add: publish_def)

lemma publish_cache:
  assumes "samples \<noteq> []"
  shows "latest_pm25 (publish w samples) = Some (fst (last samples))"
    and "latest_pm10 (publish w samples) = Some (snd (last samples))"
    and "last_update (publish w samples) = Some (py_int (clock w (ticks w)))"
    and "lock (publish w samples) = lock w"
    and "ser (publish w samples) = ser w"
    and "json_output (publish w samples) = json_output w"
    and "fs (publish w samples) =
           write_json (refused w) (tmp_names w) (json_output w) (fs w)
             (py_int (clock w (ticks w))) (fst (last samples)) (snd (last samples))"
  using assms
  by (simp_all add: publish_def time_time_def Let_def split: prod.splits)

lemma cycle_cases:
  assumes "cycle w = Some w'"
  obtains (wake_failed) e s1 where
      "cmd_set_sleep 0 (ser w) = Some (Inl e, s1)" "w' = w\<lparr>ser := s1\<rparr>"
  | (completed) u s1 w2 samples r s4 where
      "cmd_set_sleep 0 (ser w) = Some (Inr u, s1)"
      "read_phase (w\<lparr>ser := s1\<rparr>) = Some (w2, samples)"
      "cmd_set_sleep 1 (ser (publish w2 samples)) = Some (r, s4)"
      "w' = (publish w2 samples)\<lparr>ser := s4\<rparr>"
  using assms
  by (auto simp: cycle_def Let_def split: option.splits sum.splits prod.splits)

lemma write_json_dest:
  assumes "files f0 dest \<noteq> None \<or> snd dest \<notin> set names"
  shows "files (write_json deny names dest f0 ts pm25 pm10) dest = files f0 dest \<or>
     files (write_json deny names dest f0 ts pm25 pm10) dest = Some (snapshot ts pm25 pm10)"
proof -
  have "write_json deny names dest f0 ts pm25 pm10 \<in>
      set (f0 # write_json_trace deny names dest f0 ts pm25 pm10)"
    unfolding write_json_def by (rule last_in_set) simp
  with assms show ?thesis by (rule write_json_trace_dest)
qed

lemma write_json_complete:
  assumes "files f0 dest \<noteq> None \<or> snd dest \<notin> set names"
    and "fst dest \<noteq> []" and "\<forall>c. \<not> deny c"
    and "find (\<lambda>n. files f0 (fst dest, n) = None) names = Some n"
  shows "files (write_json deny names dest f0 ts pm25 pm10) dest = Some (snapshot ts pm25 pm10)"
proof -
  have neq: "(fst dest, n) \<noteq> dest"
    using assms(1,4) by (rule write_json_trace_tmp_fresh)
  show ?thesis
    unfolding write_json_def write_json_trace_all [OF assms(2-4) neq]
    using neq by (simp add: Let_def del: upt_Suc)
qed

subsection \<open>Frames that arrive whole, and a silent line\<close>

lemma incoming_Suc:
  "incoming s (Suc n) = rx s (pos s) # incoming (s\<lparr>pos := pos s + 1\<rparr>) n"
  by (simp add: incoming_def upt_conv_Cons del: upt_Suc)

lemma ser_read_all:
  "incoming s n = map Some d \<Longrightarrow> ser_read n s = (d, s\<lparr>pos := pos s + n\<rparr>)"
proof (induction n arbitrary: s d)
  case 0
  then show ?case by (simp add: incoming_def)
next
  case (Suc n)
  from Suc.prems obtain b d' where d: "d = b # d'" "rx s (pos s) = Some b"
    "incoming (s\<lparr>pos := pos s + 1\<rparr>) n = map Some d'"
    by (cases d) (auto simp: incoming_Suc)
  from Suc.IH [OF d(3)] d(1,2) show ?case by simp
qed

lemma read_response_frame:
  assumes "incoming s 10 = map Some (0xAA # d)"
  shows "read_response s = Some (Inr (0xAA # d), s\<lparr>pos := pos s + 10\<rparr>)"
proof -
  have ten: "(10::nat) = Suc 9" by simp
  from assms have h: "rx s (pos s) = Some 0xAA"
    and r: "incoming (s\<lparr>pos := pos s + 1\<rparr>) 9 = map Some d"
    unfolding ten incoming_Suc by simp_all
  from r have l: "length d = 9"
    by (metis length_map incoming_def diff_add_inverse length_upt)
  have "read_header s [] 0 = Some (s\<lparr>pos := pos s + 1\<rparr>, [0xAA], 0)"
    using h by (simp add: read_header_step read_header_stop)
  moreover have "ser_read 9 (s\<lparr>pos := pos s + 1\<rparr>) = (d, s\<lparr>pos := pos s + 10\<rparr>)"
    using ser_read_all [OF r] by simp
  ultimately show ?thesis using l by (simp add: read_response_def)
qed

lemma read_header_silent:
  "incoming s n = replicate n None \<Longrightarrow> retries + n = 10 \<Longrightarrow> byte \<noteq> [0xAA] \<Longrightarrow>
   read_header s byte retries = Some (s\<lparr>pos := pos s + n\<rparr>, (if n = 0 then byte else []), 10)"
proof (induction n arbitrary: s byte retries)
  case 0
  then show ?case by (simp add: read_header_stop)
next
  case (Suc n)
  from Suc.prems(1) have h: "rx s (pos s) = None"
    and r: "incoming (s\<lparr>pos := pos s + 1\<rparr>) n = replicate n None"
    by (simp_all add: incoming_Suc)
  have lt: "retries < 10" using Suc.prems(2) by simp
  have "read_header s byte retries = read_header (s\<lparr>pos := pos s + 1\<rparr>) [] (retries + 1)"
    using Suc.prems(3) lt h by (simp add: read_header_step)
  also have "\<dots> = Some (s\<lparr>pos := pos s + 1\<rparr>\<lparr>pos := pos (s\<lparr>pos := pos s + 1\<rparr>) + n\<rparr>,
      (if n = 0 then [] else []), 10)"
    using Suc.prems(2) by (intro Suc.IH [OF r]) simp_all
  finally show ?case by simp
qed

lemma read_response_silent:
  assumes "incoming s 10 = replicate 10 None"
  shows "read_response s = Some (Inl NoResponse, s\<lparr>pos := pos s + 10\<rparr>)"
proof -
  have "read_header s [] 0 = Some (s\<lparr>pos := pos s + 10\<rparr>, (if (10::nat) = 0 then [] else []), 10)"
    using assms by (intro read_header_silent) simp_all
  then show ?thesis by (simp add: read_response_def)
qed

lemma construct_sleep_frames:
  "fst (construct_command CMD_SLEEP (Some [1, 1])) = Inr wake_frame"
  "fst (construct_command CMD_SLEEP (Some [1, 0])) = Inr sleep_frame"
  by (simp_all add: construct_command_def to_bytes_def byte_values_def CMD_SLEEP_def
      wake_frame_def sleep_frame_def eval_nat_numeral)

lemma cmd_set_sleep_eq:
  "cmd_set_sleep sl s =
     (case read_response (ser_write (if sl \<noteq> 0 then sleep_frame else wake_frame) s) of
        None \<Rightarrow> None
      | Some (Inl e, s') \<Rightarrow> Some (Inl e, s')
      | Some (Inr d, s') \<Rightarrow> Some (Inr (), s'))"
  by (simp add: cmd_set_sleep_def construct_sleep_frames)

lemma sampling_loop_stop:
  assumes "\<not> clock w (ticks w) - start_time < real_of_int (read_period w)"
    and "ticks w' = ticks w + 1" and "w' = w\<lparr>ticks := ticks w'\<rparr>"
  shows "sampling_loop start_time w samples = Some (w', samples)"
proof -
  have "w' = w\<lparr>ticks := ticks w + 1\<rparr>" using assms(2,3) by simp
  then show ?thesis
    using assms(1) by (subst sampling_loop.simps) (simp add: time_time_def)
qed

lemma sampling_loop_step:
  assumes "clock w (ticks w) - start_time < real_of_int (read_period w)"
    and "cmd_query_data (ser w) = Some (r, ser w')"
    and "ticks w' = ticks w + 1" and "w' = w\<lparr>ser := ser w', ticks := ticks w'\<rparr>"
    and "samples' =
      (case r of Inr (Some pm25, Some pm10) \<Rightarrow> samples @ [(pm25, pm10)] | _ \<Rightarrow> samples)"
  shows "sampling_loop start_time w samples = sampling_loop start_time w' samples'"
proof -
  have "w' = w\<lparr>ticks := ticks w + 1\<rparr>\<lparr>ser := ser w'\<rparr>"
    using assms(3,4) by (metis world.surjective world.update_convs(2) service.update_convs(5))
  then show ?thesis
    using assms(1,2,5) by (subst sampling_loop.simps) (simp add: time_time_def)
qed

subsection \<open>The two runs\<close>

lemma busy_world_fields [simp]:
  "latest_pm25 busy_world = None" "latest_pm10 busy_world = None"
  "last_update busy_world = None" "lock busy_world = None"
  "ser busy_world = busy_ser 0 []" "read_period busy_world = 70"
  "json_output busy_world = default_json_output" "clock busy_world = clock20"
  "ticks busy_world = 0" "fs busy_world = empty_fs" "refused busy_world = permissive"
  "tmp_names busy_world = [''tmpk3v9x_ab'']"
  by (simp_all add: busy_world_def)

lemma busy_ser_fields [simp]:
  "rx (busy_ser k t) = line busy_events" "pos (busy_ser k t) = k" "tx (busy_ser k t) = t"
  "ser_write b (busy_ser k t) = busy_ser k (t @ [b])"
  "busy_ser k t\<lparr>pos := j\<rparr> = busy_ser j t"
  by (simp_all add: busy_ser_def ser_write_def)

lemma busy_incoming:
  "incoming (busy_ser 0 t) 10 =
     map Some [0xAA, 0xC5, 6, 1, 1, 0, 0xA1, 0x60, 9, 0xAB]"
  "incoming (busy_ser 10 t) 10 =
     map Some [0xAA, 0xC0, 10, 0, 10, 0, 0xA1, 0x60, 21, 0xAB]"
  "incoming (busy_ser 20 t) 10 =
     map Some [0xAA, 0xC0, 20, 0, 20, 0, 0xA1, 0x60, 41, 0xAB]"
  "incoming (busy_ser 30 t) 10 =
     map Some [0xAA, 0xC0, 30, 0, 30, 0, 0xA1, 0x60, 61, 0xAB]"
  "incoming (busy_ser 40 t) 10 =
     map Some [0xAA, 0xC5, 6, 1, 0, 0, 0xA1, 0x60, 8, 0xAB]"
  by (simp_all add: incoming_def busy_ser_def line_def busy_events_def upt_conv_Cons)

lemma busy_wake:
  "cmd_set_sleep 0 (busy_ser 0 []) = Some (Inr (), busy_ser 10 [wake_frame])"
  using read_response_frame [OF busy_incoming(1), of "[wake_frame]"]
  by (simp add: cmd_set_sleep_eq)

lemma busy_sleep:
  "cmd_set_sleep 1 (busy_ser 40 t) = Some (Inr (), busy_ser 50 (t @ [sleep_frame]))"
  using read_response_frame [OF busy_incoming(5), of "t @ [sleep_frame]"]
  by (simp add: cmd_set_sleep_eq)

lemma busy_queries:
  "cmd_query_data (busy_ser 10 t) = Some (Inr (Some 1, Some 1), busy_ser 20 (t @ [query_frame]))"
  "cmd_query_data (busy_ser 20 t) = Some (Inr (Some 2, Some 2), busy_ser 30 (t @ [query_frame]))"
  "cmd_query_data (busy_ser 30 t) = Some (Inr (Some 3, Some 3), busy_ser 40 (t @ [query_frame]))"
  using read_response_frame [OF busy_incoming(2), of "t @ [query_frame]"]
    read_response_frame [OF busy_incoming(3), of "t @ [query_frame]"]
    read_response_frame [OF busy_incoming(4), of "t @ [query_frame]"]
  by (simp_all add: cmd_query_data_eq cmd_query_data_decode_def)

lemma busy_read_phase:
  "read_phase (busy_world\<lparr>ser := busy_ser 10 [wake_frame]\<rparr>) =
     Some (busy_world\<lparr>ser := busy_ser 40 [wake_frame, query_frame, query_frame, query_frame],
                      ticks := 5\<rparr>,
           [(1, 1), (2, 2), (3, 3)])"
proof -
  let ?st = "clock20 0"
  have "read_phase (busy_world\<lparr>ser := busy_ser 10 [wake_frame]\<rparr>) =
      sampling_loop ?st (busy_world\<lparr>ser := busy_ser 10 [wake_frame], ticks := 1\<rparr>) []"
    by (simp add: read_phase_def time_time_def)
  also have "\<dots> = sampling_loop ?st
      (busy_world\<lparr>ser := busy_ser 20 [wake_frame, query_frame], ticks := 2\<rparr>) [(1, 1)]"
    by (rule sampling_loop_step [where r = "Inr (Some 1, Some 1)"])
      (simp_all add: busy_queries clock20_def)
  also have "\<dots> = sampling_loop ?st
      (busy_world\<lparr>ser := busy_ser 30 [wake_frame, query_frame, query_frame], ticks := 3\<rparr>)
      [(1, 1), (2, 2)]"
    by (rule sampling_loop_step [where r = "Inr (Some 2, Some 2)"])
      (simp_all add: busy_queries clock20_def)
  also have "\<dots> = sampling_loop ?st
      (busy_world\<lparr>ser := busy_ser 40 [wake_frame, query_frame, query_frame, query_frame],
                   ticks := 4\<rparr>)
      [(1, 1), (2, 2), (3, 3)]"
    by (rule sampling_loop_step [where r = "Inr (Some 3, Some 3)"])
      (simp_all add: busy_queries clock20_def)
  also have "\<dots> = Some
      (busy_world\<lparr>ser := busy_ser 40 [wake_frame, query_frame, query_frame, query_frame],
                   ticks := 5\<rparr>,
       [(1, 1), (2, 2), (3, 3)])"
    by (rule sampling_loop_stop) (simp_all add: clock20_def)
  finally show ?thesis .
qed

lemma busy_cycle: "cycle busy_world = Some busy_done"
  by (simp add: cycle_def busy_wake busy_read_phase publish_cache busy_sleep busy_done_def)

lemma quiet_world_fields [simp]:
  "latest_pm25 quiet_world = Some 7.5" "latest_pm10 quiet_world = Some 9"
  "last_update quiet_world = Some 1699999000" "lock quiet_world = None"
  "ser quiet_world = quiet_ser 0 []" "read_period quiet_world = 60"
  "json_output quiet_world = default_json_output" "clock quiet_world = clock20"
  "ticks quiet_world = 0" "fs quiet_world = empty_fs" "refused quiet_world = permissive"
  "tmp_names quiet_world = [''tmpk3v9x_ab'']"
  by (simp_all add: quiet_world_def)

lemma quiet_ser_fields [simp]:
  "rx (quiet_ser k t) = line quiet_events" "pos (quiet_ser k t) = k" "tx (quiet_ser k t) = t"
  "ser_write b (quiet_ser k t) = quiet_ser k (t @ [b])"
  "quiet_ser k t\<lparr>pos := j\<rparr> = quiet_ser j t"
  by (simp_all add: quiet_ser_def ser_write_def)

lemma quiet_incoming:
  "incoming (quiet_ser 0 t) 10 =
     map Some [0xAA, 0xC5, 6, 1, 1, 0, 0xA1, 0x60, 9, 0xAB]"
  "incoming (quiet_ser 10 t) 10 = replicate 10 None"
  "incoming (quiet_ser 20 t) 10 = replicate 10 None"
  "incoming (quiet_ser 30 t) 10 = replicate 10 None"
  by (simp_all add: incoming_def quiet_ser_def line_def quiet_events_def upt_conv_Cons
      eval_nat_numeral)

lemma quiet_wake:
  "cmd_set_sleep 0 (quiet_ser 0 []) = Some (Inr (), quiet_ser 10 [wake_frame])"
  using read_response_frame [OF quiet_incoming(1), of "[wake_frame]"]
  by (simp add: cmd_set_sleep_eq)

lemma quiet_sleep:
  "cmd_set_sleep 1 (quiet_ser 30 t) = Some (Inl NoResponse, quiet_ser 40 (t @ [sleep_frame]))"
  using read_response_silent [OF quiet_incoming(4), of "t @ [sleep_frame]"]
  by (simp add: cmd_set_sleep_eq)

lemma quiet_queries:
  "cmd_query_data (quiet_ser 10 t) = Some (Inl NoResponse, quiet_ser 20 (t @ [query_frame]))"
  "cmd_query_data (quiet_ser 20 t) = Some (Inl NoResponse, quiet_ser 30 (t @ [query_frame]))"
  using read_response_silent [OF quiet_incoming(2), of "t @ [query_frame]"]
    read_response_silent [OF quiet_incoming(3), of "t @ [query_frame]"]
  by (simp_all add: cmd_query_data_eq)

lemma quiet_read_phase:
  "read_phase (quiet_world\<lparr>ser := quiet_ser 10 [wake_frame]\<rparr>) =
     Some (quiet_world\<lparr>ser := quiet_ser 30 [wake_frame, query_frame, query_frame],
                       ticks := 4\<rparr>, [])"
proof -
  let ?st = "clock20 0"
  have "read_phase (quiet_world\<lparr>ser := quiet_ser 10 [wake_frame]\<rparr>) =
      sampling_loop ?st (quiet_world\<lparr>ser := quiet_ser 10 [wake_frame], ticks := 1\<rparr>) []"
    by (simp add: read_phase_def time_time_def)
  also have "\<dots> = sampling_loop ?st
      (quiet_world\<lparr>ser := quiet_ser 20 [wake_frame, query_frame], ticks := 2\<rparr>) []"
    by (rule sampling_loop_step [where r = "Inl NoResponse"])
      (simp_all add: quiet_queries clock20_def)
  also have "\<dots> = sampling_loop ?st
      (quiet_world\<lparr>ser := quiet_ser 30 [wake_frame, query_frame, query_frame], ticks := 3\<rparr>) []"
    by (rule sampling_loop_step [where r = "Inl NoResponse"])
      (simp_all add: quiet_queries clock20_def)
  also have "\<dots> = Some
      (quiet_world\<lparr>ser := quiet_ser 30 [wake_frame, query_frame, query_frame], ticks := 4\<rparr>, [])"
    by (rule sampling_loop_stop) (simp_all add: clock20_def)
  finally show ?thesis .
qed

lemma quiet_cycle: "cycle quiet_world = Some quiet_done"
  by (simp add: cycle_def quiet_wake quiet_read_phase quiet_sleep quiet_done_def)
subsection \<open>The cache and the lock\<close>

lemma reachable_invariant:
  "reachable w p \<Longrightarrow>
   (case p of
      Outside \<Rightarrow> lock w \<noteq> Some Worker \<and> (latest_pm25 w = None \<longleftrightarrow> latest_pm10 w = None)
    | Inside a b k \<Rightarrow>
        lock w = Some Worker \<and> k \<le> 3 \<and> (1 \<le> k \<longrightarrow> latest_pm25 w \<noteq> None) \<and>
        (2 \<le> k \<longrightarrow> latest_pm10 w \<noteq> None) \<and>
        (k = 0 \<longrightarrow> (latest_pm25 w = None \<longleftrightarrow> latest_pm10 w = None)))"
proof (induction rule: reachable.induct)
  case (other w p w')
  then show ?case by (cases p) (simp_all add: same_cache_def)
qed (auto split: pc.splits)

lemma publish_reachable:
  assumes "reachable w Outside" and "lock w = None"
  shows "reachable (publish w samples) Outside"
proof (cases "samples = []")
  case True
  with assms show ?thesis by simp
next
  case False
  let ?a = "fst (last samples)"
  let ?b = "snd (last samples)"
  let ?t = "py_int (clock w (ticks w))"
  let ?v = "w\<lparr>lock := Some Worker\<rparr>\<lparr>latest_pm25 := Some ?a\<rparr>\<lparr>latest_pm10 := Some ?b\<rparr>
              \<lparr>last_update := Some ?t\<rparr>\<lparr>lock := None\<rparr>"
  have "reachable (w\<lparr>lock := Some Worker\<rparr>) (Inside ?a ?b 0)"
    using assms by (rule reachable.acquire)
  then have "reachable (w\<lparr>lock := Some Worker\<rparr>\<lparr>latest_pm25 := Some ?a\<rparr>) (Inside ?a ?b 1)"
    by (rule reachable.set_pm25)
  then have "reachable (w\<lparr>lock := Some Worker\<rparr>\<lparr>latest_pm25 := Some ?a\<rparr>\<lparr>latest_pm10 := Some ?b\<rparr>)
      (Inside ?a ?b 2)"
    by (rule reachable.set_pm10)
  then have "reachable (w\<lparr>lock := Some Worker\<rparr>\<lparr>latest_pm25 := Some ?a\<rparr>\<lparr>latest_pm10 := Some ?b\<rparr>
      \<lparr>last_update := Some ?t\<rparr>) (Inside ?a ?b 3)"
    by (rule reachable.set_update)
  then have "reachable ?v Outside"
    by (rule reachable.release)
  moreover have "same_cache ?v (publish w samples)"
    using False assms(2) by (simp add: same_cache_def publish_cache)
  ultimately show ?thesis by (rule reachable.other)
qed

lemma cycle_reachable:
  assumes "reachable w Outside" and "lock w = None" and "cycle w = Some w'"
  shows "reachable w' Outside \<and> lock w' = None"
  using assms(3)
proof (cases rule: cycle_cases)
  case (wake_failed e s1)
  then have "same_cache w w'" by (simp add: same_cache_def)
  with assms(1) have "reachable w' Outside" by (rule reachable.other)
  then show ?thesis using wake_failed assms(2) by simp
next
  case (completed u s1 w2 samples r s4)
  from completed(2) obtain s t where w2: "w2 = w\<lparr>ser := s1, ser := s, ticks := t\<rparr>"
    by (rule read_phase_frame)
  then have "same_cache w w2" by (simp add: same_cache_def)
  with assms(1) have r2: "reachable w2 Outside" by (rule reachable.other)
  have l2: "lock w2 = None"
    using \<open>same_cache w w2\<close> assms(2) by (simp add: same_cache_def)
  have r3: "reachable (publish w2 samples) Outside"
    using r2 l2 by (rule publish_reachable)
  have l3: "lock (publish w2 samples) = None"
    using l2 by (cases "samples = []") (simp_all add: publish_cache)
  have "same_cache (publish w2 samples) w'"
    using completed(4) by (simp add: same_cache_def)
  with r3 have "reachable w' Outside" by (rule reachable.other)
  then show ?thesis using completed(4) l3 by simp
qed

lemma new_loop_packet_cases:
  "new_loop_packet w packet = packet \<or>
   (\<exists>a b. latest_pm25 w = Some a \<and> latest_pm10 w = Some b \<and>
      new_loop_packet w packet = packet(''pm2_5'' \<mapsto> a, ''pm10_0'' \<mapsto> b))"
  by (auto simp: new_loop_packet_def split: option.splits)

text \<open>
  C5: for a non-empty list of samples, the publish step stores the last element, with
  the time, in the cache and passes the same values to the snapshot writer.  The
  destination file then holds the object with the key \<open>dateTime\<close> and that time, the
  key \<open>pm2_5\<close> and the first component of the last sample, the key \<open>pm10_0\<close> and its
  second component, with the permission bits \<open>0x1A4\<close>; or it keeps its prior state,
  when a call of the writer failed.  It holds the object when no call fails.  The
  samples of a pass of the loop are those its reading period returns, and the pass
  ends with this cache and file system.  The samples
  \<open>[(1.0, 1.0), (2.0, 2.0), (3.0, 3.0)]\<close> publish \<open>(3.0, 3.0)\<close>.
\<close>

theorem publish_last_sample:
  "samples \<noteq> [] \<longrightarrow>
     latest_pm25 (publish w samples) = Some (fst (last samples)) \<and>
     latest_pm10 (publish w samples) = Some (snd (last samples)) \<and>
     last_update (publish w samples) = Some (py_int (clock w (ticks w))) \<and>
     (files (fs w) (json_output w) \<noteq> None \<or> snd (json_output w) \<notin> set (tmp_names w) \<longrightarrow>
        (files (fs (publish w samples)) (json_output w) = files (fs w) (json_output w) \<or>
         files (fs (publish w samples)) (json_output w) =
           Some \<lparr>content =
               [Punct ''{'', Key ''dateTime'', Punct '': '', IntLit (py_int (clock w (ticks w))),
                Punct '', '', Key ''pm2_5'', Punct '': '', FloatLit (fst (last samples)),
                Punct '', '', Key ''pm10_0'', Punct '': '', FloatLit (snd (last samples)), Punct ''}''],
              mode = 0x1A4\<rparr>) \<and>
        (fst (json_output w) \<noteq> [] \<and> (\<forall>c. \<not> refused w c) \<and>
         find (\<lambda>n. files (fs w) (fst (json_output w), n) = None) (tmp_names w) = Some n \<longrightarrow>
           files (fs (publish w samples)) (json_output w) =
             Some \<lparr>content =
               [Punct ''{'', Key ''dateTime'', Punct '': '', IntLit (py_int (clock w (ticks w))),
                Punct '', '', Key ''pm2_5'', Punct '': '', FloatLit (fst (last samples)),
                Punct '', '', Key ''pm10_0'', Punct '': '', FloatLit (snd (last samples)), Punct ''}''],
              mode = 0x1A4\<rparr>)) \<and>
     (cmd_set_sleep 0 (ser w0) = Some (Inr u, s1) \<and>
      read_phase (w0\<lparr>ser := s1\<rparr>) = Some (w, samples) \<and> cycle w0 = Some w' \<longrightarrow>
        latest_pm25 w' = Some (fst (last samples)) \<and>
        latest_pm10 w' = Some (snd (last samples)) \<and>
        last_update w' = Some (py_int (clock w (ticks w))) \<and>
        fs w' = fs (publish w samples)) \<and>
     latest_pm25 (publish w [(1, 1), (2, 2), (3, 3)]) = Some 3 \<and>
     latest_pm10 (publish w [(1, 1), (2, 2), (3, 3)]) = Some 3"
proof (intro impI conjI)
  assume ne: "samples \<noteq> []"
  show "latest_pm25 (publish w samples) = Some (fst (last samples))"
    "latest_pm10 (publish w samples) = Some (snd (last samples))"
    "last_update (publish w samples) = Some (py_int (clock w (ticks w)))"
    using ne by (simp_all add: publish_cache)
  show "latest_pm25 (publish w [(1, 1), (2, 2), (3, 3)]) = Some 3"
    "latest_pm10 (publish w [(1, 1), (2, 2), (3, 3)]) = Some 3"
    by (simp_all add: publish_cache)
  {
    assume fresh: "files (fs w) (json_output w) \<noteq> None \<or> snd (json_output w) \<notin> set (tmp_names w)"
    show "files (fs (publish w samples)) (json_output w) = files (fs w) (json_output w) \<or>
         files (fs (publish w samples)) (json_output w) =
           Some \<lparr>content =
               [Punct ''{'', Key ''dateTime'', Punct '': '', IntLit (py_int (clock w (ticks w))),
                Punct '', '', Key ''pm2_5'', Punct '': '', FloatLit (fst (last samples)),
                Punct '', '', Key ''pm10_0'', Punct '': '', FloatLit (snd (last samples)), Punct ''}''],
              mode = 0x1A4\<rparr>"
      using ne write_json_dest [OF fresh]
      by (simp add: publish_cache snapshot_def json_chunks_def)
    assume "fst (json_output w) \<noteq> [] \<and> (\<forall>c. \<not> refused w c) \<and>
         find (\<lambda>n. files (fs w) (fst (json_output w), n) = None) (tmp_names w) = Some n"
    then have "fst (json_output w) \<noteq> []" "\<forall>c. \<not> refused w c"
      "find (\<lambda>n. files (fs w) (fst (json_output w), n) = None) (tmp_names w) = Some n"
      by simp_all
    from write_json_complete [OF fresh this, of "py_int (clock w (ticks w))"
        "fst (last samples)" "snd (last samples)"]
    show "files (fs (publish w samples)) (json_output w) =
        Some \<lparr>content =
               [Punct ''{'', Key ''dateTime'', Punct '': '', IntLit (py_int (clock w (ticks w))),
                Punct '', '', Key ''pm2_5'', Punct '': '', FloatLit (fst (last samples)),
                Punct '', '', Key ''pm10_0'', Punct '': '', FloatLit (snd (last samples)), Punct ''}''],
              mode = 0x1A4\<rparr>"
      using ne by (simp add: publish_cache snapshot_def json_chunks_def)
  }
  assume c: "cmd_set_sleep 0 (ser w0) = Some (Inr u, s1) \<and>
      read_phase (w0\<lparr>ser := s1\<rparr>) = Some (w, samples) \<and> cycle w0 = Some w'"
  then have "cycle w0 = Some w'" by simp
  then have w': "\<exists>s4. w' = (publish w samples)\<lparr>ser := s4\<rparr>"
    using c by (cases rule: cycle_cases) auto
  then show "latest_pm25 w' = Some (fst (last samples))"
    "latest_pm10 w' = Some (snd (last samples))"
    "last_update w' = Some (py_int (clock w (ticks w)))"
    "fs w' = fs (publish w samples)"
    using ne by (auto simp: publish_cache)
qed

theorem publish_last_sample_witness:
  "[(1, 1), (2, 2), (3, 3)] \<noteq> ([] :: (real \<times> real) list) \<and>
   cmd_set_sleep 0 (ser busy_world) = Some (Inr (), busy_ser 10 [wake_frame]) \<and>
   read_phase (busy_world\<lparr>ser := busy_ser 10 [wake_frame]\<rparr>) =
     Some (busy_world\<lparr>ser := busy_ser 40 [wake_frame, query_frame, query_frame, query_frame],
                      ticks := 5\<rparr>,
           [(1, 1), (2, 2), (3, 3)]) \<and>
   cycle busy_world = Some busy_done \<and>
   latest_pm25 busy_done = Some 3 \<and> latest_pm10 busy_done = Some 3 \<and>
   last_update busy_done = Some 1700000100 \<and>
   files (fs busy_done) default_json_output =
     Some \<lparr>content =
        [Punct ''{'', Key ''dateTime'', Punct '': '', IntLit (1700000100),
         Punct '', '', Key ''pm2_5'', Punct '': '', FloatLit (3),
         Punct '', '', Key ''pm10_0'', Punct '': '', FloatLit (3), Punct ''}''],
       mode = 0x1A4\<rparr>"
proof -
  let ?w = "busy_world\<lparr>ser := busy_ser 40 [wake_frame, query_frame, query_frame, query_frame],
                      ticks := 5\<rparr>"
  let ?samples = "[(1, 1), (2, 2), (3, 3)] :: (real \<times> real) list"
  have wake: "cmd_set_sleep 0 (ser busy_world) = Some (Inr (), busy_ser 10 [wake_frame])"
    using busy_wake by simp
  have t: "py_int (clock ?w (ticks ?w)) = 1700000100"
    by (simp add: clock20_def py_int_def)
  have env: "snd (json_output ?w) \<notin> set (tmp_names ?w)" "fst (json_output ?w) \<noteq> []"
    "\<forall>c. \<not> refused ?w c"
    "find (\<lambda>n. files (fs ?w) (fst (json_output ?w), n) = None) (tmp_names ?w) =
       Some ''tmpk3v9x_ab''"
    by (simp_all add: default_json_output_def permissive_def empty_fs_def)
  from publish_last_sample [where samples = ?samples and w = ?w and ?w0.0 = busy_world
      and u = "()" and ?s1.0 = "busy_ser 10 [wake_frame]" and w' = busy_done
      and n = "''tmpk3v9x_ab''"]
    wake busy_read_phase busy_cycle env
  have "latest_pm25 busy_done = Some 3" "latest_pm10 busy_done = Some 3"
    "last_update busy_done = Some (py_int (clock ?w (ticks ?w)))"
    "fs busy_done = fs (publish ?w ?samples)"
    "files (fs (publish ?w ?samples)) (json_output ?w) =
       Some \<lparr>content =
          [Punct ''{'', Key ''dateTime'', Punct '': '', IntLit (py_int (clock ?w (ticks ?w))),
           Punct '', '', Key ''pm2_5'', Punct '': '', FloatLit (3),
           Punct '', '', Key ''pm10_0'', Punct '': '', FloatLit (3), Punct ''}''],
         mode = 0x1A4\<rparr>"
    by simp_all
  then show ?thesis
    using wake busy_read_phase busy_cycle t by simp
qed

text \<open>
  C6: when the reading period of a pass returns no sample, the publish step changes
  nothing, and the pass ends with the three cache fields and the whole file system
  (destination, directories, temporary files) as they were before it.
\<close>

theorem cycle_without_samples:
  "cmd_set_sleep 0 (ser w) = Some (Inr u, s1) \<and> read_phase (w\<lparr>ser := s1\<rparr>) = Some (w2, []) \<longrightarrow>
     publish w2 [] = w2 \<and>
     latest_pm25 w2 = latest_pm25 w \<and> latest_pm10 w2 = latest_pm10 w \<and>
     last_update w2 = last_update w \<and> fs w2 = fs w \<and>
     (cycle w = Some w' \<longrightarrow>
        latest_pm25 w' = latest_pm25 w \<and> latest_pm10 w' = latest_pm10 w \<and>
        last_update w' = last_update w \<and> fs w' = fs w)"
proof (intro impI)
  assume a: "cmd_set_sleep 0 (ser w) = Some (Inr u, s1) \<and>
    read_phase (w\<lparr>ser := s1\<rparr>) = Some (w2, [])"
  then have rp: "read_phase (w\<lparr>ser := s1\<rparr>) = Some (w2, [])" by simp
  from rp obtain s t where w2: "w2 = w\<lparr>ser := s1, ser := s, ticks := t\<rparr>"
    by (rule read_phase_frame)
  have keep: "latest_pm25 w2 = latest_pm25 w" "latest_pm10 w2 = latest_pm10 w"
    "last_update w2 = last_update w" "fs w2 = fs w"
    by (simp_all add: w2)
  have end_of_pass: "latest_pm25 w' = latest_pm25 w \<and> latest_pm10 w' = latest_pm10 w \<and>
        last_update w' = last_update w \<and> fs w' = fs w" if "cycle w = Some w'"
    using that
  proof (cases rule: cycle_cases)
    case (wake_failed e s1')
    with a show ?thesis by simp
  next
    case (completed u' s1' w2' samples r s4)
    with a have "w2' = w2" "samples = []" by simp_all
    with completed(4) keep show ?thesis by simp
  qed
  show "publish w2 [] = w2 \<and>
     latest_pm25 w2 = latest_pm25 w \<and> latest_pm10 w2 = latest_pm10 w \<and>
     last_update w2 = last_update w \<and> fs w2 = fs w \<and>
     (cycle w = Some w' \<longrightarrow>
        latest_pm25 w' = latest_pm25 w \<and> latest_pm10 w' = latest_pm10 w \<and>
        last_update w' = last_update w \<and> fs w' = fs w)"
    using keep end_of_pass by simp
qed

theorem cycle_without_samples_witness:
  "cmd_set_sleep 0 (ser quiet_world) = Some (Inr (), quiet_ser 10 [wake_frame]) \<and>
   read_phase (quiet_world\<lparr>ser := quiet_ser 10 [wake_frame]\<rparr>) =
     Some (quiet_world\<lparr>ser := quiet_ser 30 [wake_frame, query_frame, query_frame],
                       ticks := 4\<rparr>, []) \<and>
   cycle quiet_world = Some quiet_done \<and>
   latest_pm25 quiet_done = Some 7.5 \<and> latest_pm10 quiet_done = Some 9 \<and>
   last_update quiet_done = Some 1699999000 \<and> fs quiet_done = empty_fs"
proof -
  have wake: "cmd_set_sleep 0 (ser quiet_world) = Some (Inr (), quiet_ser 10 [wake_frame])"
    using quiet_wake by simp
  from cycle_without_samples [where w = quiet_world and u = "()"
      and ?s1.0 = "quiet_ser 10 [wake_frame]"
      and ?w2.0 = "quiet_world\<lparr>ser := quiet_ser 30 [wake_frame, query_frame, query_frame],
                       ticks := 4\<rparr>"
      and w' = quiet_done]
    wake quiet_read_phase quiet_cycle
  have "latest_pm25 quiet_done = latest_pm25 quiet_world"
    "latest_pm10 quiet_done = latest_pm10 quiet_world"
    "last_update quiet_done = last_update quiet_world" "fs quiet_done = fs quiet_world"
    by simp_all
  then show ?thesis
    using wake quiet_read_phase quiet_cycle by simp
qed

text \<open>
  C10: in every state that the threads can reach in which the worker does not hold the
  lock (the states that \<^verbatim>\<open>new_loop_packet\<close>, which takes the lock, can see),
  \<open>latest_pm25\<close> and \<open>latest_pm10\<close> are both \<open>None\<close> or both set; a pass of the loop leads
  from such a state to such a state; and \<^verbatim>\<open>new_loop_packet\<close> adds both fields or leaves
  the packet as it is.
\<close>

theorem cache_fields_together:
  "(reachable w p \<and> lock w \<noteq> Some Worker \<longrightarrow>
      (latest_pm25 w = None \<longleftrightarrow> latest_pm10 w = None) \<and>
      (latest_pm25 w = None \<longrightarrow> new_loop_packet w packet = packet) \<and>
      (latest_pm25 w \<noteq> None \<longrightarrow>
         (\<exists>a b. latest_pm25 w = Some a \<and> latest_pm10 w = Some b \<and>
            new_loop_packet w packet = packet(''pm2_5'' \<mapsto> a, ''pm10_0'' \<mapsto> b)))) \<and>
   (reachable w Outside \<and> lock w = None \<and> cycle w = Some w' \<longrightarrow>
      reachable w' Outside \<and> lock w' = None)"
proof (intro conjI impI)
  assume a: "reachable w p \<and> lock w \<noteq> Some Worker"
  then have "reachable w p" "lock w \<noteq> Some Worker" by simp_all
  from reachable_invariant [OF this(1)] this(2)
  show both: "latest_pm25 w = None \<longleftrightarrow> latest_pm10 w = None"
    by (cases p) simp_all
  {
    assume "latest_pm25 w = None"
    then show "new_loop_packet w packet = packet"
      by (simp add: new_loop_packet_def)
  }
  assume "latest_pm25 w \<noteq> None"
  with both show "\<exists>a b. latest_pm25 w = Some a \<and> latest_pm10 w = Some b \<and>
      new_loop_packet w packet = packet(''pm2_5'' \<mapsto> a, ''pm10_0'' \<mapsto> b)"
    by (auto simp: new_loop_packet_def)
next
  assume "reachable w Outside \<and> lock w = None \<and> cycle w = Some w'"
  then have "reachable w Outside" "lock w = None" "cycle w = Some w'" by simp_all
  then have "reachable w' Outside \<and> lock w' = None" by (rule cycle_reachable)
  then show "reachable w' Outside" "lock w' = None" by simp_all
qed

theorem cache_fields_together_witness:
  "reachable busy_world Outside \<and> lock busy_world = None \<and>
   cycle busy_world = Some busy_done \<and>
   reachable busy_done Outside \<and> lock busy_done = None \<and>
   latest_pm25 busy_world = None \<and> latest_pm10 busy_world = None \<and>
   new_loop_packet busy_world [''outTemp'' \<mapsto> 11.5] = [''outTemp'' \<mapsto> 11.5] \<and>
   new_loop_packet busy_done [''outTemp'' \<mapsto> 11.5] =
     [''outTemp'' \<mapsto> 11.5, ''pm2_5'' \<mapsto> 3, ''pm10_0'' \<mapsto> 3]"
proof -
  have r0: "reachable busy_world Outside"
    by (rule reachable.init) simp_all
  from cache_fields_together [where w = busy_world and p = Outside and w' = busy_done
      and packet = "[''outTemp'' \<mapsto> 11.5]"] r0 busy_cycle
  have r1: "reachable busy_done Outside" "lock busy_done = None"
    and p0: "new_loop_packet busy_world [''outTemp'' \<mapsto> 11.5] = [''outTemp'' \<mapsto> 11.5]"
    by simp_all
  have c: "latest_pm25 busy_done = Some 3" "latest_pm10 busy_done = Some 3"
    by (simp_all add: busy_done_def publish_cache)
  from cache_fields_together [where w = busy_done and p = Outside
      and packet = "[''outTemp'' \<mapsto> 11.5]"] r1 c
  have "new_loop_packet busy_done [''outTemp'' \<mapsto> 11.5] =
     [''outTemp'' \<mapsto> 11.5, ''pm2_5'' \<mapsto> 3, ''pm10_0'' \<mapsto> 3]"
    by simp
  then show ?thesis using r0 r1 p0 busy_cycle by simp
qed

end
